theory Spec2Isabelle
  imports Complex_Main "HOL-Library.Multiset" "HOL-Library.Sublist"
begin

section \<open>The multi-target tracker of \<^verbatim>\<open>deep_sort/sort/tracker.py\<close>\<close>

text \<open>
  The development embeds the class \<^verbatim>\<open>Tracker\<close> of \<^verbatim>\<open>tracker.py\<close>: its constructor,
  \<^verbatim>\<open>predict\<close>, \<^verbatim>\<open>update\<close>, \<^verbatim>\<open>_match\<close> and \<^verbatim>\<open>_initiate_track\<close>. The modules it imports
  (\<^verbatim>\<open>track\<close>, \<^verbatim>\<open>kalman_filter\<close>, \<^verbatim>\<open>linear_assignment\<close>, \<^verbatim>\<open>iou_matching\<close>, the
  \<^verbatim>\<open>nn_matching\<close> metric and the detection class) are not part of the sources at hand.
  The tracked object is modelled from the specification; the numeric collaborators
  (Kalman filter, distance metric, cost matrices, assignment solvers) are parameters of
  the model, collected in one record.

  Python integers are \<open>int\<close>. Indices into the track and detection lists are \<open>nat\<close>: they
  originate from \<^verbatim>\<open>enumerate\<close> and \<^verbatim>\<open>range\<close>, and an index at or beyond the length of the
  list raises \<^verbatim>\<open>IndexError\<close>, which the model renders as \<open>None\<close>.
\<close>

subsection \<open>Detections and tracked objects\<close>

record ('b, 'f) detection =
  tlwh :: 'b
  feature :: 'f

datatype TrackState = Tentative | Confirmed | Deleted

record ('m, 'v, 'f) track =
  mean :: 'm
  covariance :: 'v
  track_id :: int
  hits :: int
  age :: int
  time_since_update :: int
  state :: TrackState
  features :: "'f list"
  track_n_init :: int
  track_max_age :: int

text \<open>
  Modelled from the spec: the lifecycle queries of the tracked object (\<^verbatim>\<open>track.py\<close> is
  not among the sources). The lifecycle state is one of Tentative, Confirmed, Deleted.
\<close>

definition is_confirmed :: "('m, 'v, 'f) track \<Rightarrow> bool" where
  "is_confirmed t = (state t = Confirmed)"

definition is_deleted :: "('m, 'v, 'f) track \<Rightarrow> bool" where
  "is_deleted t = (state t = Deleted)"

text \<open>
  Modelled from the spec: the constructor of the tracked object (\<^verbatim>\<open>track.py\<close> is not
  among the sources). A tracked object is constructed from (mean, covariance, identity,
  n\_init, max\_age, feature); it starts Tentative, with no successful update, no elapsed
  frame and no miss on record, and its accumulated feature list holds the seeding feature.
\<close>

definition Track ::
  "'m \<Rightarrow> 'v \<Rightarrow> int \<Rightarrow> int \<Rightarrow> int \<Rightarrow> 'f \<Rightarrow> ('m, 'v, 'f) track" where
  "Track m c tid ninit maxage feat =
     \<lparr>mean = m, covariance = c, track_id = tid, hits = 0, age = 0,
      time_since_update = 0, state = Tentative, features = [feat],
      track_n_init = ninit, track_max_age = maxage\<rparr>"

text \<open>
  Modelled from the spec: the miss-handling transition of the tracked object. A Tentative
  track that misses is Deleted; a track whose \<open>time_since_update\<close> exceeds \<open>max_age\<close> is
  Deleted; otherwise nothing changes.
\<close>

definition Track_mark_missed :: "('m, 'v, 'f) track \<Rightarrow> ('m, 'v, 'f) track" where
  "Track_mark_missed t =
     (if state t = Tentative then t\<lparr>state := Deleted\<rparr>
      else if time_since_update t > track_max_age t then t\<lparr>state := Deleted\<rparr>
      else t)"

subsection \<open>The collaborators\<close>

type_synonym match_result = "(nat \<times> nat) list \<times> nat list \<times> nat list"

type_synonym ('b, 'f, 'm, 'v, 'c) cost_fn =
  "('m, 'v, 'f) track list \<Rightarrow> ('b, 'f) detection list \<Rightarrow> nat list \<Rightarrow> nat list \<Rightarrow> 'c option"

text \<open>
  The parts of the repository that \<^verbatim>\<open>tracker.py\<close> calls and that are not among the
  sources. \<open>'c\<close> is the type of cost matrices and \<open>'g\<close> the state of the appearance
  metric (its galleries); thresholds are passed through unchanged. A cost function may
  raise (\<open>None\<close>); the solvers and the metric are taken to return.
  \<open>list_of_set xs\<close> stands for Python's \<^verbatim>\<open>list(set(xs))\<close>, whose iteration order the
  language leaves open.
\<close>

record ('b, 'f, 'm, 'v, 'c, 'g) collaborators =
  to_xyah :: "'b \<Rightarrow> 'b"
  kf_initiate :: "'b \<Rightarrow> 'm \<times> 'v"
  kf_predict :: "'m \<Rightarrow> 'v \<Rightarrow> 'm \<times> 'v"
  kf_update :: "'m \<Rightarrow> 'v \<Rightarrow> 'b \<Rightarrow> 'm \<times> 'v"
  metric_distance :: "'g \<Rightarrow> 'f list \<Rightarrow> int list \<Rightarrow> 'c"
  matching_threshold :: "'g \<Rightarrow> real"
  partial_fit :: "'f list \<Rightarrow> int list \<Rightarrow> int list \<Rightarrow> 'g \<Rightarrow> 'g"
  gate_cost_matrix ::
    "'c \<Rightarrow> ('m, 'v, 'f) track list \<Rightarrow> ('b, 'f) detection list \<Rightarrow> nat list \<Rightarrow> nat list \<Rightarrow> 'c"
  iou_cost :: "('b, 'f, 'm, 'v, 'c) cost_fn"
  matching_cascade ::
    "('b, 'f, 'm, 'v, 'c) cost_fn \<Rightarrow> real \<Rightarrow> int \<Rightarrow> ('m, 'v, 'f) track list \<Rightarrow>
       ('b, 'f) detection list \<Rightarrow> nat list \<Rightarrow> match_result"
  min_cost_matching ::
    "('b, 'f, 'm, 'v, 'c) cost_fn \<Rightarrow> real \<Rightarrow> ('m, 'v, 'f) track list \<Rightarrow>
       ('b, 'f) detection list \<Rightarrow> nat list \<Rightarrow> nat list \<Rightarrow> match_result"
  list_of_set :: "nat list \<Rightarrow> nat list"

text \<open>
  Modelled from the spec: the motion-propagation step of the tracked object. It advances
  the state estimate with the filter and increments \<open>age\<close> and \<open>time_since_update\<close>.
\<close>

definition Track_predict ::
  "('b, 'f, 'm, 'v, 'c, 'g) collaborators \<Rightarrow> ('m, 'v, 'f) track \<Rightarrow> ('m, 'v, 'f) track" where
  "Track_predict env t =
     (case kf_predict env (mean t) (covariance t) of
        (m, c) \<Rightarrow> t\<lparr>mean := m, covariance := c, age := age t + 1,
                    time_since_update := time_since_update t + 1\<rparr>)"

text \<open>
  Modelled from the spec: the measurement update of the tracked object. It corrects the
  state estimate with the detection's box, appends the detection's feature, counts the
  hit, resets the miss counter and confirms a Tentative track that has reached \<open>n_init\<close>
  successful updates.
\<close>

definition Track_update ::
  "('b, 'f, 'm, 'v, 'c, 'g) collaborators \<Rightarrow> ('m, 'v, 'f) track \<Rightarrow> ('b, 'f) detection \<Rightarrow>
     ('m, 'v, 'f) track" where
  "Track_update env t d =
     (case kf_update env (mean t) (covariance t) (to_xyah env (tlwh d)) of
        (m, c) \<Rightarrow>
          t\<lparr>mean := m, covariance := c,
            features := features t @ [feature d],
            hits := hits t + 1,
            time_since_update := 0,
            state := (if state t = Tentative \<and> hits t + 1 \<ge> track_n_init t
                      then Confirmed else state t)\<rparr>)"

subsection \<open>The tracker\<close>

record ('m, 'v, 'f, 'g) tracker =
  metric :: 'g
  max_iou_distance :: real
  max_age :: int
  n_init :: int
  tracks :: "('m, 'v, 'f) track list"
  next_id :: int

text \<open>\<^verbatim>\<open>Tracker.__init__\<close>: no tracks, and the first identity to hand out is 1.\<close>

definition Tracker_init :: "'g \<Rightarrow> real \<Rightarrow> int \<Rightarrow> int \<Rightarrow> ('m, 'v, 'f, 'g) tracker" where
  "Tracker_init metr max_iou maxage ninit =
     \<lparr>metric = metr, max_iou_distance = max_iou, max_age = maxage, n_init = ninit,
      tracks = [], next_id = 1\<rparr>"

text \<open>\<^verbatim>\<open>Tracker.predict\<close>: every track of the list is propagated, in place.\<close>

definition Tracker_predict ::
  "('b, 'f, 'm, 'v, 'c, 'g) collaborators \<Rightarrow> ('m, 'v, 'f, 'g) tracker \<Rightarrow> ('m, 'v, 'f, 'g) tracker" where
  "Tracker_predict env s = s\<lparr>tracks := map (Track_predict env) (tracks s)\<rparr>"

text \<open>\<^verbatim>\<open>xs[i]\<close> for a non-negative index: \<^verbatim>\<open>IndexError\<close> beyond the end.\<close>

definition index :: "'a list \<Rightarrow> nat \<Rightarrow> 'a option" where
  "index xs i = (if i < length xs then Some (xs ! i) else None)"

text \<open>
  A list comprehension \<^verbatim>\<open>[f(xs[i]) for i in idx]\<close>: the first index out of range raises.
\<close>

fun gather :: "('a \<Rightarrow> 'b) \<Rightarrow> 'a list \<Rightarrow> nat list \<Rightarrow> 'b list option" where
  "gather f xs [] = Some []"
| "gather f xs (i # idx) =
     (case index xs i of
        None \<Rightarrow> None
      | Some x \<Rightarrow> (case gather f xs idx of None \<Rightarrow> None | Some ys \<Rightarrow> Some (f x # ys)))"

text \<open>
  The closure \<^verbatim>\<open>gated_metric\<close> of \<^verbatim>\<open>_match\<close>: the appearance distance between the
  features of the given detections and the identities of the given tracks, then gated
  by \<^verbatim>\<open>gate_cost_matrix\<close>. It reads the metric of the tracker.
\<close>

definition gated_metric ::
  "('b, 'f, 'm, 'v, 'c, 'g) collaborators \<Rightarrow> 'g \<Rightarrow> ('b, 'f, 'm, 'v, 'c) cost_fn" where
  "gated_metric env g trks dets track_indices detection_indices =
     (case gather feature dets detection_indices of
        None \<Rightarrow> None
      | Some feats \<Rightarrow>
          (case gather track_id trks track_indices of
             None \<Rightarrow> None
           | Some targets \<Rightarrow>
               Some (gate_cost_matrix env (metric_distance env g feats targets)
                       trks dets track_indices detection_indices)))"

text \<open>The two comprehensions over \<^verbatim>\<open>enumerate(self.tracks)\<close>.\<close>

definition confirmed_tracks :: "('m, 'v, 'f) track list \<Rightarrow> nat list" where
  "confirmed_tracks trks = [i \<leftarrow> [0..<length trks]. is_confirmed (trks ! i)]"

definition unconfirmed_tracks :: "('m, 'v, 'f) track list \<Rightarrow> nat list" where
  "unconfirmed_tracks trks = [i \<leftarrow> [0..<length trks]. \<not> is_confirmed (trks ! i)]"

text \<open>
  \<^verbatim>\<open>[k for k in ks if self.tracks[k].time_since_update <cond>]\<close>: a filter over indices
  that reads each track, and raises on an index out of range.
\<close>

fun select_tsu ::
  "(int \<Rightarrow> bool) \<Rightarrow> ('m, 'v, 'f) track list \<Rightarrow> nat list \<Rightarrow> nat list option" where
  "select_tsu P trks [] = Some []"
| "select_tsu P trks (k # ks) =
     (case index trks k of
        None \<Rightarrow> None
      | Some t \<Rightarrow>
          (case select_tsu P trks ks of
             None \<Rightarrow> None
           | Some r \<Rightarrow> Some (if P (time_since_update t) then k # r else r)))"

text \<open>Stage A of \<^verbatim>\<open>_match\<close>: the call of \<^verbatim>\<open>linear_assignment.matching_cascade\<close>.\<close>

definition stage_a ::
  "('b, 'f, 'm, 'v, 'c, 'g) collaborators \<Rightarrow> ('b, 'f) detection list \<Rightarrow>
     ('m, 'v, 'f, 'g) tracker \<Rightarrow> match_result" where
  "stage_a env dets s =
     matching_cascade env (gated_metric env (metric s))
       (matching_threshold env (metric s)) (max_age s) (tracks s) dets
       (confirmed_tracks (tracks s))"

text \<open>The list \<^verbatim>\<open>iou_track_candidates\<close> built from Stage A's unmatched tracks.\<close>

definition iou_track_candidates ::
  "('m, 'v, 'f) track list \<Rightarrow> nat list \<Rightarrow> nat list option" where
  "iou_track_candidates trks unmatched_tracks_a =
     (case select_tsu (\<lambda>n. n = 1) trks unmatched_tracks_a of
        None \<Rightarrow> None
      | Some ks \<Rightarrow> Some (unconfirmed_tracks trks @ ks))"

text \<open>Stage B of \<^verbatim>\<open>_match\<close>: the call of \<^verbatim>\<open>linear_assignment.min_cost_matching\<close>.\<close>

definition stage_b ::
  "('b, 'f, 'm, 'v, 'c, 'g) collaborators \<Rightarrow> ('b, 'f) detection list \<Rightarrow>
     ('m, 'v, 'f, 'g) tracker \<Rightarrow> nat list \<Rightarrow> nat list \<Rightarrow> match_result" where
  "stage_b env dets s candidates unmatched_detections =
     min_cost_matching env (iou_cost env) (max_iou_distance s) (tracks s) dets
       candidates unmatched_detections"

text \<open>\<^verbatim>\<open>Tracker._match\<close>.\<close>

definition Tracker_match ::
  "('b, 'f, 'm, 'v, 'c, 'g) collaborators \<Rightarrow> ('b, 'f) detection list \<Rightarrow>
     ('m, 'v, 'f, 'g) tracker \<Rightarrow> match_result option" where
  "Tracker_match env dets s =
     (case stage_a env dets s of
        (matches_a, unmatched_tracks_a, unmatched_detections) \<Rightarrow>
          (case iou_track_candidates (tracks s) unmatched_tracks_a of
             None \<Rightarrow> None
           | Some candidates \<Rightarrow>
               (case select_tsu (\<lambda>n. n \<noteq> 1) (tracks s) unmatched_tracks_a of
                  None \<Rightarrow> None
                | Some unmatched_tracks_a' \<Rightarrow>
                    (case stage_b env dets s candidates unmatched_detections of
                       (matches_b, unmatched_tracks_b, unmatched_detections') \<Rightarrow>
                         Some (matches_a @ matches_b,
                               list_of_set env (unmatched_tracks_a' @ unmatched_tracks_b),
                               unmatched_detections')))))"

text \<open>
  The first loop of \<^verbatim>\<open>Tracker.update\<close>: every match updates its track, in place, with
  its detection.
\<close>

fun update_matched ::
  "('b, 'f, 'm, 'v, 'c, 'g) collaborators \<Rightarrow> ('b, 'f) detection list \<Rightarrow>
     ('m, 'v, 'f, 'g) tracker \<Rightarrow> (nat \<times> nat) list \<Rightarrow> ('m, 'v, 'f, 'g) tracker option" where
  "update_matched env dets s [] = Some s"
| "update_matched env dets s ((track_idx, detection_idx) # ms) =
     (case index (tracks s) track_idx of
        None \<Rightarrow> None
      | Some t \<Rightarrow>
          (case index dets detection_idx of
             None \<Rightarrow> None
           | Some d \<Rightarrow>
               update_matched env dets
                 (s\<lparr>tracks := (tracks s)[track_idx := Track_update env t d]\<rparr>) ms))"

text \<open>The second loop: every unmatched track is marked missed, in place.\<close>

fun mark_unmatched ::
  "('m, 'v, 'f, 'g) tracker \<Rightarrow> nat list \<Rightarrow> ('m, 'v, 'f, 'g) tracker option" where
  "mark_unmatched s [] = Some s"
| "mark_unmatched s (track_idx # ks) =
     (case index (tracks s) track_idx of
        None \<Rightarrow> None
      | Some t \<Rightarrow>
          mark_unmatched (s\<lparr>tracks := (tracks s)[track_idx := Track_mark_missed t]\<rparr>) ks)"

text \<open>
  \<^verbatim>\<open>Tracker._initiate_track\<close>: a new track is built from the detection's box and
  feature under the identity \<^verbatim>\<open>_next_id\<close> and appended, and \<^verbatim>\<open>_next_id\<close> is
  incremented. \<open>initiated_track\<close> is the track that is appended.
\<close>

definition initiated_track ::
  "('b, 'f, 'm, 'v, 'c, 'g) collaborators \<Rightarrow> ('m, 'v, 'f, 'g) tracker \<Rightarrow> ('b, 'f) detection \<Rightarrow>
     ('m, 'v, 'f) track" where
  "initiated_track env s d =
     (case kf_initiate env (to_xyah env (tlwh d)) of
        (m, c) \<Rightarrow> Track m c (next_id s) (n_init s) (max_age s) (feature d))"

definition Tracker_initiate_track ::
  "('b, 'f, 'm, 'v, 'c, 'g) collaborators \<Rightarrow> ('m, 'v, 'f, 'g) tracker \<Rightarrow> ('b, 'f) detection \<Rightarrow>
     ('m, 'v, 'f, 'g) tracker" where
  "Tracker_initiate_track env s d =
     s\<lparr>tracks := tracks s @ [initiated_track env s d], next_id := next_id s + 1\<rparr>"

text \<open>The third loop: every unmatched detection initiates a track.\<close>

fun initiate_unmatched ::
  "('b, 'f, 'm, 'v, 'c, 'g) collaborators \<Rightarrow> ('b, 'f) detection list \<Rightarrow>
     ('m, 'v, 'f, 'g) tracker \<Rightarrow> nat list \<Rightarrow> ('m, 'v, 'f, 'g) tracker option" where
  "initiate_unmatched env dets s [] = Some s"
| "initiate_unmatched env dets s (detection_idx # ks) =
     (case index dets detection_idx of
        None \<Rightarrow> None
      | Some d \<Rightarrow> initiate_unmatched env dets (Tracker_initiate_track env s d) ks)"

text \<open>The three loops in sequence, on the result of \<^verbatim>\<open>_match\<close>.\<close>

definition apply_outcomes ::
  "('b, 'f, 'm, 'v, 'c, 'g) collaborators \<Rightarrow> ('b, 'f) detection list \<Rightarrow>
     ('m, 'v, 'f, 'g) tracker \<Rightarrow> match_result \<Rightarrow> ('m, 'v, 'f, 'g) tracker option" where
  "apply_outcomes env dets s r =
     (case r of
        (matches, unmatched_tracks, unmatched_detections) \<Rightarrow>
          (case update_matched env dets s matches of
             None \<Rightarrow> None
           | Some s1 \<Rightarrow>
               (case mark_unmatched s1 unmatched_tracks of
                  None \<Rightarrow> None
                | Some s2 \<Rightarrow> initiate_unmatched env dets s2 unmatched_detections)))"

text \<open>\<^verbatim>\<open>self.tracks = [t for t in self.tracks if not t.is_deleted()]\<close>.\<close>

definition prune :: "('m, 'v, 'f, 'g) tracker \<Rightarrow> ('m, 'v, 'f, 'g) tracker" where
  "prune s = s\<lparr>tracks := filter (\<lambda>t. \<not> is_deleted t) (tracks s)\<rparr>"

text \<open>
  The loop that gathers the features of the confirmed tracks: \<open>feats\<close> and \<open>targets\<close>
  are the two accumulators, \<open>seen\<close> the tracks already visited (a confirmed one with its
  feature list reset).
\<close>

fun gather_features ::
  "'f list \<Rightarrow> int list \<Rightarrow> ('m, 'v, 'f) track list \<Rightarrow> ('m, 'v, 'f) track list \<Rightarrow>
     'f list \<times> int list \<times> ('m, 'v, 'f) track list" where
  "gather_features feats targets seen [] = (feats, targets, seen)"
| "gather_features feats targets seen (t # ts) =
     (if \<not> is_confirmed t then gather_features feats targets (seen @ [t]) ts
      else gather_features (feats @ features t)
             (targets @ map (\<lambda>_. track_id t) (features t))
             (seen @ [t\<lparr>features := []\<rparr>]) ts)"

text \<open>The list \<^verbatim>\<open>active_targets\<close>.\<close>

definition active_targets :: "('m, 'v, 'f) track list \<Rightarrow> int list" where
  "active_targets trks = map track_id (filter is_confirmed trks)"

text \<open>
  The update of the distance metric that ends \<^verbatim>\<open>Tracker.update\<close>; \<^verbatim>\<open>np.asarray\<close> keeps
  the elements of a list and their order.
\<close>

definition refresh ::
  "('b, 'f, 'm, 'v, 'c, 'g) collaborators \<Rightarrow> ('m, 'v, 'f, 'g) tracker \<Rightarrow> ('m, 'v, 'f, 'g) tracker" where
  "refresh env s =
     (case gather_features [] [] [] (tracks s) of
        (feats, targets, trks) \<Rightarrow>
          s\<lparr>tracks := trks,
            metric := partial_fit env feats targets (active_targets (tracks s)) (metric s)\<rparr>)"

text \<open>
  \<^verbatim>\<open>Tracker.update\<close>. An exception leaves the result \<open>None\<close>; the partially updated
  tracker it leaves behind in Python is not modelled.
\<close>

definition Tracker_update ::
  "('b, 'f, 'm, 'v, 'c, 'g) collaborators \<Rightarrow> ('b, 'f) detection list \<Rightarrow>
     ('m, 'v, 'f, 'g) tracker \<Rightarrow> ('m, 'v, 'f, 'g) tracker option" where
  "Tracker_update env dets s =
     (case Tracker_match env dets s of
        None \<Rightarrow> None
      | Some r \<Rightarrow>
          (case apply_outcomes env dets s r of
             None \<Rightarrow> None
           | Some s3 \<Rightarrow> Some (refresh env (prune s3))))"

subsection \<open>Sequences of calls\<close>

datatype ('b, 'f) call = Predict | Update "('b, 'f) detection list"

text \<open>The calls a client makes on one tracker, in order; an exception ends the session.\<close>

fun calls ::
  "('b, 'f, 'm, 'v, 'c, 'g) collaborators \<Rightarrow> ('m, 'v, 'f, 'g) tracker \<Rightarrow> ('b, 'f) call list \<Rightarrow>
     ('m, 'v, 'f, 'g) tracker option" where
  "calls env s [] = Some s"
| "calls env s (Predict # cs) = calls env (Tracker_predict env s) cs"
| "calls env s (Update dets # cs) =
     (case Tracker_update env dets s of None \<Rightarrow> None | Some s' \<Rightarrow> calls env s' cs)"

subsection \<open>Invariants of a session\<close>

text \<open>
  The identities in use are strictly increasing along the track list and below the
  counter \<^verbatim>\<open>_next_id\<close>.
\<close>

definition ids_ok :: "('m, 'v, 'f, 'g) tracker \<Rightarrow> bool" where
  "ids_ok s \<longleftrightarrow>
     sorted_wrt (<) (map track_id (tracks s)) \<and> (\<forall>t\<in>set (tracks s). track_id t < next_id s)"

text \<open>No confirmed track holds features that the metric has not been given yet.\<close>

definition features_flushed :: "('m, 'v, 'f, 'g) tracker \<Rightarrow> bool" where
  "features_flushed s \<longleftrightarrow> (\<forall>t\<in>set (tracks s). is_confirmed t \<longrightarrow> features t = [])"

text \<open>
  One track object over time: \<open>evolved env t t'\<close> holds when \<open>t'\<close> is \<open>t\<close> after any
  number of the mutations the tracker performs on a track, which are \<^verbatim>\<open>Track.predict\<close>,
  \<^verbatim>\<open>Track.update\<close>, \<^verbatim>\<open>Track.mark_missed\<close> and the reset of its feature list.
\<close>

inductive evolved ::
  "('b, 'f, 'm, 'v, 'c, 'g) collaborators \<Rightarrow> ('m, 'v, 'f) track \<Rightarrow> ('m, 'v, 'f) track \<Rightarrow> bool"
  for env :: "('b, 'f, 'm, 'v, 'c, 'g) collaborators" where
  same: "evolved env t t"
| predicted: "evolved env t t' \<Longrightarrow> evolved env t (Track_predict env t')"
| updated: "evolved env t t' \<Longrightarrow> evolved env t (Track_update env t' d)"
| missed: "evolved env t t' \<Longrightarrow> evolved env t (Track_mark_missed t')"
| flushed: "evolved env t t' \<Longrightarrow> evolved env t (t'\<lparr>features := []\<rparr>)"

subsection \<open>What the tracker expects of its collaborators\<close>

text \<open>
  Modelled from the spec: the result contract of an assignment solver
  (\<^verbatim>\<open>linear_assignment.py\<close> is not among the sources). The solver returns matches,
  unmatched track indices and unmatched detection indices: every track index it was
  given comes back exactly once, in a match or as unmatched, and so does every detection
  index.
\<close>

definition assignment_ok :: "match_result \<Rightarrow> nat list \<Rightarrow> nat list \<Rightarrow> bool" where
  "assignment_ok r track_indices detection_indices =
     (case r of
        (matches, unmatched_tracks, unmatched_detections) \<Rightarrow>
          mset (map fst matches) + mset unmatched_tracks = mset track_indices \<and>
          mset (map snd matches) + mset unmatched_detections = mset detection_indices)"

text \<open>
  The contract at the two solver calls of one \<^verbatim>\<open>_match\<close>: the cascade is given the
  confirmed tracks and all detections, the plain solver the candidates and the detections
  the cascade left over.
\<close>

definition solvers_ok ::
  "('b, 'f, 'm, 'v, 'c, 'g) collaborators \<Rightarrow> ('b, 'f) detection list \<Rightarrow>
     ('m, 'v, 'f, 'g) tracker \<Rightarrow> bool" where
  "solvers_ok env dets s =
     (case stage_a env dets s of
        (matches_a, unmatched_tracks_a, unmatched_detections) \<Rightarrow>
          assignment_ok (matches_a, unmatched_tracks_a, unmatched_detections)
            (confirmed_tracks (tracks s)) [0..<length dets] \<and>
          (case iou_track_candidates (tracks s) unmatched_tracks_a of
             None \<Rightarrow> False
           | Some candidates \<Rightarrow>
               assignment_ok (stage_b env dets s candidates unmatched_detections)
                 candidates unmatched_detections))"

text \<open>
  Python's \<^verbatim>\<open>list(set(xs))\<close> lists every element of \<open>xs\<close> once, in an order of its own.
\<close>

definition set_iteration_ok :: "('b, 'f, 'm, 'v, 'c, 'g) collaborators \<Rightarrow> bool" where
  "set_iteration_ok env =
     (\<forall>xs. distinct (list_of_set env xs) \<and> set (list_of_set env xs) = set xs)"

subsection \<open>A runnable instance of the collaborators\<close>

text \<open>
  To run the model on concrete frames the parameters need values. This instance pairs
  the given track indices with the given detection indices in the order they come, with
  trivial cost matrices and a filter that takes the measured box as the new mean; the
  metric and its \<^verbatim>\<open>partial_fit\<close> are left to choose.
\<close>

definition pair_in_order :: "nat list \<Rightarrow> nat list \<Rightarrow> match_result" where
  "pair_in_order track_indices detection_indices =
     (zip track_indices detection_indices,
      drop (length detection_indices) track_indices,
      drop (length track_indices) detection_indices)"

definition pairing_collaborators ::
  "(nat list \<Rightarrow> int list \<Rightarrow> int list \<Rightarrow> 'g \<Rightarrow> 'g) \<Rightarrow> (nat, nat, nat, unit, unit, 'g) collaborators" where
  "pairing_collaborators pf =
     \<lparr>to_xyah = (\<lambda>b. b),
      kf_initiate = (\<lambda>b. (b, ())),
      kf_predict = (\<lambda>m c. (m, c)),
      kf_update = (\<lambda>m c b. (b, c)),
      metric_distance = (\<lambda>g feats targets. ()),
      matching_threshold = (\<lambda>g. 1 / 5),
      partial_fit = pf,
      gate_cost_matrix = (\<lambda>c trks dets tis dis. c),
      iou_cost = (\<lambda>trks dets tis dis. Some ()),
      matching_cascade = (\<lambda>cost thr depth trks dets tis. pair_in_order tis [0..<length dets]),
      min_cost_matching = (\<lambda>cost thr trks dets tis dis. pair_in_order tis dis),
      list_of_set = remdups\<rparr>"

text \<open>
  A second instance, more reluctant: the cascade matches the first track it is given
  with the first detection and nothing else, and the plain solver matches nothing.
\<close>

definition reluctant_collaborators ::
  "(nat list \<Rightarrow> int list \<Rightarrow> int list \<Rightarrow> 'g \<Rightarrow> 'g) \<Rightarrow> (nat, nat, nat, unit, unit, 'g) collaborators" where
  "reluctant_collaborators pf =
     (pairing_collaborators pf)
       \<lparr>matching_cascade :=
          (\<lambda>cost thr depth trks dets tis.
             (case tis of
                [] \<Rightarrow> ([], [], [0..<length dets])
              | t # ts \<Rightarrow>
                  (if dets = [] then ([], tis, []) else ([(t, 0)], ts, [1..<length dets])))),
        min_cost_matching := (\<lambda>cost thr trks dets tis dis. ([], tis, dis))\<rparr>"

text \<open>A metric that only records the calls of \<^verbatim>\<open>partial_fit\<close>, oldest first.\<close>

type_synonym fit_log = "(nat list \<times> int list \<times> int list) list"

definition logging_fit :: "nat list \<Rightarrow> int list \<Rightarrow> int list \<Rightarrow> fit_log \<Rightarrow> fit_log" where
  "logging_fit feats targets active lg = lg @ [(feats, targets, active)]"

text \<open>
  Modelled from the spec: \<^verbatim>\<open>partial_fit\<close> of the appearance metric (\<^verbatim>\<open>nn_matching.py\<close>
  is not among the sources). The gallery maps an identity to its feature vectors;
  \<^verbatim>\<open>partial_fit(features, identities, active_identities)\<close> replaces the gallery of each
  active identity by the features passed under that identity and discards the galleries
  of the identities absent from \<open>active_identities\<close>.
\<close>

definition gallery_fit ::
  "'f list \<Rightarrow> int list \<Rightarrow> int list \<Rightarrow> (int \<Rightarrow> 'f list option) \<Rightarrow> (int \<Rightarrow> 'f list option)" where
  "gallery_fit feats targets active g =
     (\<lambda>k. if k \<in> set active then Some (map fst (filter (\<lambda>p. snd p = k) (zip feats targets)))
          else None)"

text \<open>
  A tracker in mid-session, after \<^verbatim>\<open>predict\<close>: a confirmed track updated in the previous
  frame, a confirmed track that has gone five frames without an update, and a tentative
  track created in the previous frame.
\<close>

definition example_track ::
  "int \<Rightarrow> TrackState \<Rightarrow> int \<Rightarrow> int \<Rightarrow> nat list \<Rightarrow> (nat, unit, nat) track" where
  "example_track tid st h tsu feats =
     \<lparr>mean = 0, covariance = (), track_id = tid, hits = h, age = 9,
      time_since_update = tsu, state = st, features = feats,
      track_n_init = 3, track_max_age = 70\<rparr>"

definition example_tracker :: "'g \<Rightarrow> (nat, unit, nat, 'g) tracker" where
  "example_tracker g =
     \<lparr>metric = g, max_iou_distance = 7 / 10, max_age = 70, n_init = 3,
      tracks = [example_track 1 Confirmed 6 1 [], example_track 2 Confirmed 4 5 [],
                example_track 4 Tentative 0 1 [7]],
      next_id = 6\<rparr>"

text \<open>
  A third instance, in which the cost matrices decide. Boxes and features are numbers.
  The metric keeps a gallery per identity and its distance is the smallest difference
  between a feature and the samples of an identity; the gate rejects a pair whose box
  is more than 9 away from the mean of the track; the overlap cost is the distance
  between box and mean. Both solvers go through the tracks in the order given and match
  each with the first free detection whose cost is within the threshold.
\<close>

definition nn_distance :: "(int \<Rightarrow> nat list option) \<Rightarrow> nat list \<Rightarrow> int list \<Rightarrow> int list list" where
  "nn_distance g feats targets =
     map (\<lambda>t. map (\<lambda>f. (case g t of
                          None \<Rightarrow> 1000
                        | Some samples \<Rightarrow> fold min (map (\<lambda>x. \<bar>int f - int x\<bar>) samples) 1000))
                feats)
       targets"

definition gate_by_position ::
  "int list list \<Rightarrow> (nat, unit, nat) track list \<Rightarrow> (nat, nat) detection list \<Rightarrow> nat list \<Rightarrow>
     nat list \<Rightarrow> int list list" where
  "gate_by_position c trks dets tis dis =
     map (\<lambda>(row, ti).
            map (\<lambda>(x, di). if \<bar>int (mean (trks ! ti)) - int (tlwh (dets ! di))\<bar> > 9
                           then 100000 else x)
              (zip row dis))
       (zip c tis)"

definition position_cost :: "(nat, nat, nat, unit, int list list) cost_fn" where
  "position_cost trks dets tis dis =
     (if (\<forall>i\<in>set tis. i < length trks) \<and> (\<forall>j\<in>set dis. j < length dets)
      then Some (map (\<lambda>ti. map (\<lambda>di. \<bar>int (mean (trks ! ti)) - int (tlwh (dets ! di))\<bar>) dis) tis)
      else None)"

fun assign_rows :: "real \<Rightarrow> nat list \<Rightarrow> (nat \<times> int list) list \<Rightarrow> nat list \<Rightarrow> match_result" where
  "assign_rows thr dis [] free = ([], [], free)"
| "assign_rows thr dis ((t, row) # rows) free =
     (case filter (\<lambda>p. fst p \<in> set free \<and> real_of_int (snd p) \<le> thr) (zip dis row) of
        [] \<Rightarrow> (case assign_rows thr dis rows free of (m, ut, ud) \<Rightarrow> (m, t # ut, ud))
      | p # _ \<Rightarrow>
          (case assign_rows thr dis rows (removeAll (fst p) free) of
             (m, ut, ud) \<Rightarrow> ((t, fst p) # m, ut, ud)))"

definition greedy_collaborators ::
  "(nat, nat, nat, unit, int list list, int \<Rightarrow> nat list option) collaborators" where
  "greedy_collaborators =
     \<lparr>to_xyah = (\<lambda>b. b),
      kf_initiate = (\<lambda>b. (b, ())),
      kf_predict = (\<lambda>m c. (m, c)),
      kf_update = (\<lambda>m c b. (b, c)),
      metric_distance = nn_distance,
      matching_threshold = (\<lambda>g. 2),
      partial_fit = gallery_fit,
      gate_cost_matrix = gate_by_position,
      iou_cost = position_cost,
      matching_cascade =
        (\<lambda>cost thr depth trks dets tis.
           (case cost trks dets tis [0..<length dets] of
              None \<Rightarrow> ([], tis, [0..<length dets])
            | Some c \<Rightarrow> assign_rows thr [0..<length dets] (zip tis c) [0..<length dets])),
      min_cost_matching =
        (\<lambda>cost thr trks dets tis dis.
           (case cost trks dets tis dis of
              None \<Rightarrow> ([], tis, dis)
            | Some c \<Rightarrow> assign_rows thr dis (zip tis c) dis)),
      list_of_set = remdups\<rparr>"

text \<open>
  The galleries that go with \<open>example_tracker\<close>: one sample for each of its two
  confirmed identities.
\<close>

definition example_gallery :: "int \<Rightarrow> nat list option" where
  "example_gallery = [1 \<mapsto> [8], 2 \<mapsto> [20]]"

text \<open>
  Two trackers with galleries, each after the calls \<^verbatim>\<open>update\<close> (one detection),
  \<^verbatim>\<open>predict\<close>, \<^verbatim>\<open>update\<close> (one detection), \<^verbatim>\<open>predict\<close> with \<open>n_init = 1\<close>: the only
  track is confirmed and one frame past its last update. \<open>stale_tracker\<close> was set up
  with \<open>max_age = 0\<close>, \<open>young_tracker\<close> with \<open>max_age = 70\<close>.
\<close>

definition session_tracker :: "int \<Rightarrow> (nat, unit, nat, int \<Rightarrow> nat list option) tracker" where
  "session_tracker maxage =
     \<lparr>metric = [1 \<mapsto> [8, 10]], max_iou_distance = 7 / 10, max_age = maxage, n_init = 1,
      tracks =
        [\<lparr>mean = 5, covariance = (), track_id = 1, hits = 1, age = 2,
            time_since_update = 1, state = Confirmed, features = [],
            track_n_init = 1, track_max_age = maxage\<rparr>],
      next_id = 2\<rparr>"

definition stale_tracker :: "(nat, unit, nat, int \<Rightarrow> nat list option) tracker" where
  "stale_tracker = session_tracker 0"

definition young_tracker :: "(nat, unit, nat, int \<Rightarrow> nat list option) tracker" where
  "young_tracker = session_tracker 70"

section \<open>Properties\<close>

subsection \<open>Indexing and the comprehensions\<close>

lemma index_Some_iff: "index xs i = Some x \<longleftrightarrow> i < length xs \<and> x = xs ! i"
  by (auto simp: index_def)

lemma index_None_iff: "index xs i = None \<longleftrightarrow> length xs \<le> i"
  by (auto simp: index_def)

lemma index_in_range: "i < length xs \<Longrightarrow> index xs i = Some (xs ! i)"
  by (simp add: index_def)

lemma gather_in_range:
  "\<forall>i\<in>set idx. i < length xs \<Longrightarrow> gather f xs idx = Some (map (\<lambda>i. f (xs ! i)) idx)"
  by (induction idx) (simp_all add: index_in_range)

lemma select_tsu_Some_iff:
  "select_tsu P trks ks = Some r \<longleftrightarrow>
     (\<forall>k\<in>set ks. k < length trks) \<and> r = filter (\<lambda>k. P (time_since_update (trks ! k))) ks"
proof (induction ks arbitrary: r)
  case Nil
  then show ?case by auto
next
  case (Cons k ks)
  show ?case
  proof (cases "k < length trks")
    case False
    then show ?thesis by (simp add: index_def)
  next
    case True
    then show ?thesis
      using Cons.IH by (cases "select_tsu P trks ks") (auto simp: index_def)
  qed
qed

lemma select_tsu_in_range:
  "\<forall>k\<in>set ks. k < length trks \<Longrightarrow>
     select_tsu P trks ks = Some (filter (\<lambda>k. P (time_since_update (trks ! k))) ks)"
  by (simp add: select_tsu_Some_iff)

lemma set_confirmed_tracks:
  "set (confirmed_tracks trks) = {i. i < length trks \<and> is_confirmed (trks ! i)}"
  by (auto simp: confirmed_tracks_def)

lemma set_unconfirmed_tracks:
  "set (unconfirmed_tracks trks) = {i. i < length trks \<and> \<not> is_confirmed (trks ! i)}"
  by (auto simp: unconfirmed_tracks_def)

lemma distinct_confirmed_tracks: "distinct (confirmed_tracks trks)"
  by (simp add: confirmed_tracks_def)

lemma distinct_unconfirmed_tracks: "distinct (unconfirmed_tracks trks)"
  by (simp add: unconfirmed_tracks_def)

lemma mset_confirmed_unconfirmed:
  "mset (confirmed_tracks trks) + mset (unconfirmed_tracks trks) = mset [0..<length trks]"
  unfolding confirmed_tracks_def unconfirmed_tracks_def mset_filter
  by (rule multiset_partition [symmetric])

lemma mset_select_split:
  "mset (filter (\<lambda>k. P k) ks) + mset (filter (\<lambda>k. \<not> P k) ks) = mset ks"
  unfolding mset_filter by (rule multiset_partition [symmetric])

lemma assignment_ok_tracks_set:
  assumes "assignment_ok (m, ut, ud) tis dis"
  shows "fst ` set m \<union> set ut = set tis"
proof -
  from assms have "mset (map fst m @ ut) = mset tis"
    by (simp add: assignment_ok_def)
  then have "set (map fst m @ ut) = set tis"
    by (rule mset_eq_setD)
  then show ?thesis by simp
qed

lemma assignment_ok_dets_set:
  assumes "assignment_ok (m, ut, ud) tis dis"
  shows "snd ` set m \<union> set ud = set dis"
proof -
  from assms have "mset (map snd m @ ud) = mset dis"
    by (simp add: assignment_ok_def)
  then have "set (map snd m @ ud) = set dis"
    by (rule mset_eq_setD)
  then show ?thesis by simp
qed

lemma list_of_set_mset:
  assumes "set_iteration_ok env" and "distinct xs"
  shows "mset (list_of_set env xs) = mset xs"
  using assms by (simp add: set_iteration_ok_def set_eq_iff_mset_eq_distinct [symmetric])

lemma pair_in_order_ok: "assignment_ok (pair_in_order tis dis) tis dis"
proof -
  have a: "mset (map fst (zip tis dis)) + mset (drop (length dis) tis) = mset tis"
  proof (cases "length dis \<le> length tis")
    case True
    then have "map fst (zip tis dis) = take (length dis) tis"
      by (simp add: map_fst_zip_take min_def)
    then show ?thesis
      by (metis append_take_drop_id mset_append)
  next
    case False
    then show ?thesis by (simp add: map_fst_zip_take min_def)
  qed
  have b: "mset (map snd (zip tis dis)) + mset (drop (length tis) dis) = mset dis"
  proof (cases "length tis \<le> length dis")
    case True
    then have "map snd (zip tis dis) = take (length tis) dis"
      by (simp add: map_snd_zip_take min_def)
    then show ?thesis
      by (metis append_take_drop_id mset_append)
  next
    case False
    then show ?thesis by (simp add: map_snd_zip_take min_def)
  qed
  show ?thesis
    unfolding pair_in_order_def assignment_ok_def using a b by (simp del: mset_map)
qed

subsection \<open>The result of \<^verbatim>\<open>_match\<close>\<close>

text \<open>What \<^verbatim>\<open>_match\<close> computes, once the results of its two solver calls are named.\<close>

lemma Tracker_match_stages:
  assumes a: "stage_a env dets s = (matches_a, unmatched_tracks_a, unmatched_detections)"
    and r: "\<forall>k\<in>set unmatched_tracks_a. k < length (tracks s)"
    and c: "candidates = unconfirmed_tracks (tracks s) @
              filter (\<lambda>k. time_since_update (tracks s ! k) = 1) unmatched_tracks_a"
    and b: "stage_b env dets s candidates unmatched_detections =
              (matches_b, unmatched_tracks_b, unmatched_detections')"
  shows "iou_track_candidates (tracks s) unmatched_tracks_a = Some candidates"
    and "Tracker_match env dets s =
           Some (matches_a @ matches_b,
                 list_of_set env
                   (filter (\<lambda>k. time_since_update (tracks s ! k) \<noteq> 1) unmatched_tracks_a @
                    unmatched_tracks_b),
                 unmatched_detections')"
proof -
  show i: "iou_track_candidates (tracks s) unmatched_tracks_a = Some candidates"
    using r c by (simp add: iou_track_candidates_def select_tsu_in_range)
  show "Tracker_match env dets s =
           Some (matches_a @ matches_b,
                 list_of_set env
                   (filter (\<lambda>k. time_since_update (tracks s ! k) \<noteq> 1) unmatched_tracks_a @
                    unmatched_tracks_b),
                 unmatched_detections')"
    using a b i r by (simp add: Tracker_match_def select_tsu_in_range)
qed

lemma solvers_ok_unfold:
  assumes ok: "solvers_ok env dets s"
    and a: "stage_a env dets s = (matches_a, unmatched_tracks_a, unmatched_detections)"
  shows "assignment_ok (matches_a, unmatched_tracks_a, unmatched_detections)
           (confirmed_tracks (tracks s)) [0..<length dets]"
    and "\<forall>k\<in>set unmatched_tracks_a. k < length (tracks s)"
    and "assignment_ok
           (stage_b env dets s
              (unconfirmed_tracks (tracks s) @
               filter (\<lambda>k. time_since_update (tracks s ! k) = 1) unmatched_tracks_a)
              unmatched_detections)
           (unconfirmed_tracks (tracks s) @
            filter (\<lambda>k. time_since_update (tracks s ! k) = 1) unmatched_tracks_a)
           unmatched_detections"
proof -
  show A: "assignment_ok (matches_a, unmatched_tracks_a, unmatched_detections)
           (confirmed_tracks (tracks s)) [0..<length dets]"
    using ok a by (simp add: solvers_ok_def)
  from assignment_ok_tracks_set [OF A]
  have "set unmatched_tracks_a \<subseteq> set (confirmed_tracks (tracks s))" by blast
  then show R: "\<forall>k\<in>set unmatched_tracks_a. k < length (tracks s)"
    by (auto simp: set_confirmed_tracks)
  then have "iou_track_candidates (tracks s) unmatched_tracks_a =
      Some (unconfirmed_tracks (tracks s) @
            filter (\<lambda>k. time_since_update (tracks s ! k) = 1) unmatched_tracks_a)"
    by (simp add: iou_track_candidates_def select_tsu_in_range)
  with ok a show "assignment_ok
           (stage_b env dets s
              (unconfirmed_tracks (tracks s) @
               filter (\<lambda>k. time_since_update (tracks s ! k) = 1) unmatched_tracks_a)
              unmatched_detections)
           (unconfirmed_tracks (tracks s) @
            filter (\<lambda>k. time_since_update (tracks s ! k) = 1) unmatched_tracks_a)
           unmatched_detections"
    by (simp add: solvers_ok_def)
qed

text \<open>Under the solvers' contract \<^verbatim>\<open>_match\<close> returns, and its result is a partition.\<close>

lemma Tracker_match_partition:
  assumes ok: "solvers_ok env dets s" and it: "set_iteration_ok env"
  shows "\<exists>m ut ud. Tracker_match env dets s = Some (m, ut, ud) \<and>
           mset (map fst m) + mset ut = mset [0..<length (tracks s)] \<and>
           mset (map snd m) + mset ud = mset [0..<length dets]"
proof -
  obtain ma uta uda where a: "stage_a env dets s = (ma, uta, uda)"
    by (cases "stage_a env dets s")
  define cands where "cands = unconfirmed_tracks (tracks s) @
      filter (\<lambda>k. time_since_update (tracks s ! k) = 1) uta"
  define uta' where "uta' = filter (\<lambda>k. time_since_update (tracks s ! k) \<noteq> 1) uta"
  obtain mb utb udb where b: "stage_b env dets s cands uda = (mb, utb, udb)"
    by (cases "stage_b env dets s cands uda")
  note u = solvers_ok_unfold [OF ok a]
  have A1: "mset (map fst ma) + mset uta = mset (confirmed_tracks (tracks s))"
    and A2: "mset (map snd ma) + mset uda = mset [0..<length dets]"
    using u(1) by (simp_all add: assignment_ok_def del: mset_map)
  have B1: "mset (map fst mb) + mset utb = mset cands"
    and B2: "mset (map snd mb) + mset udb = mset uda"
    using u(3) b by (simp_all add: assignment_ok_def cands_def del: mset_map)
  have split: "mset (filter (\<lambda>k. time_since_update (tracks s ! k) = 1) uta) + mset uta' = mset uta"
    unfolding uta'_def by (rule mset_select_split)
  have m: "Tracker_match env dets s = Some (ma @ mb, list_of_set env (uta' @ utb), udb)"
    unfolding uta'_def
    by (rule Tracker_match_stages(2) [OF a u(2) cands_def b])
  have total: "mset (map fst (ma @ mb)) + mset (uta' @ utb) = mset [0..<length (tracks s)]"
  proof -
    have "mset (map fst (ma @ mb)) + mset (uta' @ utb) =
        mset (map fst ma) + mset uta' + (mset (map fst mb) + mset utb)"
      by (simp del: mset_map)
    also have "\<dots> = mset (map fst ma) + mset uta' + mset cands"
      by (simp only: B1)
    also have "\<dots> = mset (map fst ma) +
        (mset (filter (\<lambda>k. time_since_update (tracks s ! k) = 1) uta) + mset uta') +
        mset (unconfirmed_tracks (tracks s))"
      by (simp add: cands_def del: mset_map mset_filter)
    also have "\<dots> = mset (confirmed_tracks (tracks s)) + mset (unconfirmed_tracks (tracks s))"
      by (simp only: split A1 add.assoc [symmetric])
    finally show ?thesis by (simp only: mset_confirmed_unconfirmed)
  qed
  have "mset (map fst (ma @ mb) @ (uta' @ utb)) = mset [0..<length (tracks s)]"
    using total by (simp only: mset_append)
  then have "distinct (map fst (ma @ mb) @ (uta' @ utb))"
    using mset_eq_imp_distinct_iff distinct_upt by blast
  then have d: "distinct (uta' @ utb)"
    by (simp only: distinct_append [of "map fst (ma @ mb)"])
  have ls: "mset (list_of_set env (uta' @ utb)) = mset (uta' @ utb)"
    by (rule list_of_set_mset [OF it d])
  have t: "mset (map fst (ma @ mb)) + mset (list_of_set env (uta' @ utb)) =
      mset [0..<length (tracks s)]"
    using total by (simp only: ls)
  have dd: "mset (map snd (ma @ mb)) + mset udb = mset [0..<length dets]"
  proof -
    have "mset (map snd (ma @ mb)) + mset udb = mset (map snd ma) + (mset (map snd mb) + mset udb)"
      by (simp del: mset_map)
    then show ?thesis by (simp only: B2 A2)
  qed
  show ?thesis using m t dd by blast
qed

subsection \<open>The runnable instance meets the contracts\<close>

lemma pairing_set_iteration_ok: "set_iteration_ok (pairing_collaborators pf)"
  by (simp add: set_iteration_ok_def pairing_collaborators_def)

lemmas example_simps =
  pairing_collaborators_def pair_in_order_def example_tracker_def example_track_def
  stage_a_def stage_b_def confirmed_tracks_def unconfirmed_tracks_def is_confirmed_def
  iou_track_candidates_def index_def

section \<open>The matching step\<close>

text \<open>
  Claim C9. The triple returned by \<^verbatim>\<open>_match\<close> is a partition: every index of the
  active track set occurs exactly once among the track components of the matches and
  the unmatched tracks taken together, and every detection index exactly once among the
  detection components of the matches and the unmatched detections. The two solvers are
  taken to honour their contract at the two calls \<^verbatim>\<open>_match\<close> makes, and
  \<^verbatim>\<open>list(set(...))\<close> to list a set without repetition.
\<close>

theorem match_partition:
  assumes "solvers_ok env dets s" and "set_iteration_ok env"
  shows "\<exists>m ut ud. Tracker_match env dets s = Some (m, ut, ud) \<and>
           mset (map fst m) + mset ut = mset [0..<length (tracks s)] \<and>
           mset (map snd m) + mset ud = mset [0..<length dets]"
  using assms by (rule Tracker_match_partition)

theorem match_partition_witness:
  "solvers_ok (pairing_collaborators logging_fit) [\<lparr>tlwh = 3, feature = 8\<rparr>] (example_tracker ([]::fit_log)) \<and>
   set_iteration_ok (pairing_collaborators logging_fit) \<and>
   (\<exists>m ut ud.
      Tracker_match (pairing_collaborators logging_fit) [\<lparr>tlwh = 3, feature = 8\<rparr>]
        (example_tracker ([]::fit_log)) = Some (m, ut, ud) \<and>
      mset (map fst m) + mset ut = mset [0..<length (tracks (example_tracker ([]::fit_log)))] \<and>
      mset (map snd m) + mset ud = mset [0..<length [\<lparr>tlwh = 3::nat, feature = 8::nat\<rparr>]])"
proof -
  have h1: "solvers_ok (pairing_collaborators logging_fit) [\<lparr>tlwh = 3, feature = 8\<rparr>]
      (example_tracker ([]::fit_log))"
    by (simp add: solvers_ok_def assignment_ok_def example_simps)
  have h2: "set_iteration_ok (pairing_collaborators logging_fit)"
    by (rule pairing_set_iteration_ok)
  from match_partition [OF h1 h2] h1 h2 show ?thesis by blast
qed

text \<open>
  Claim C4. The merged result of \<^verbatim>\<open>_match\<close>: the matches are those of Stage A
  followed by those of Stage B; the unmatched tracks are, without repetition, the tracks
  Stage A left over and did not pass to Stage B (their \<open>time_since_update\<close> is not 1)
  together with the tracks Stage B left over; the unmatched detections are exactly those
  Stage B left over.
\<close>

theorem match_merge:
  assumes a: "stage_a env dets s = (matches_a, unmatched_tracks_a, unmatched_detections)"
    and c: "iou_track_candidates (tracks s) unmatched_tracks_a = Some candidates"
    and b: "stage_b env dets s candidates unmatched_detections =
              (matches_b, unmatched_tracks_b, unmatched_detections')"
    and it: "set_iteration_ok env"
  shows "\<exists>ut. Tracker_match env dets s = Some (matches_a @ matches_b, ut, unmatched_detections') \<and>
           distinct ut \<and>
           set ut = {k \<in> set unmatched_tracks_a. time_since_update (tracks s ! k) \<noteq> 1} \<union>
                    set unmatched_tracks_b"
proof -
  from c obtain ks where ks: "select_tsu (\<lambda>n. n = 1) (tracks s) unmatched_tracks_a = Some ks"
    and cd: "candidates = unconfirmed_tracks (tracks s) @ ks"
    by (auto simp: iou_track_candidates_def split: option.splits)
  from ks have r: "\<forall>k\<in>set unmatched_tracks_a. k < length (tracks s)"
    and kd: "ks = filter (\<lambda>k. time_since_update (tracks s ! k) = 1) unmatched_tracks_a"
    by (simp_all add: select_tsu_Some_iff)
  have cd': "candidates = unconfirmed_tracks (tracks s) @
      filter (\<lambda>k. time_since_update (tracks s ! k) = 1) unmatched_tracks_a"
    using cd kd by simp
  note m = Tracker_match_stages(2) [OF a r cd' b]
  from it have "distinct (list_of_set env
      (filter (\<lambda>k. time_since_update (tracks s ! k) \<noteq> 1) unmatched_tracks_a @ unmatched_tracks_b))"
    and "set (list_of_set env
      (filter (\<lambda>k. time_since_update (tracks s ! k) \<noteq> 1) unmatched_tracks_a @ unmatched_tracks_b)) =
      set (filter (\<lambda>k. time_since_update (tracks s ! k) \<noteq> 1) unmatched_tracks_a @ unmatched_tracks_b)"
    by (simp_all add: set_iteration_ok_def)
  with m show ?thesis by auto
qed

theorem match_merge_witness:
  "stage_a (pairing_collaborators logging_fit)
     [\<lparr>tlwh = 3, feature = 8\<rparr>] (example_tracker ([]::fit_log)) = ([(0, 0)], [1], []) \<and>
   iou_track_candidates (tracks (example_tracker ([]::fit_log))) [1] = Some [2] \<and>
   stage_b (pairing_collaborators logging_fit) [\<lparr>tlwh = 3, feature = 8\<rparr>] (example_tracker ([]::fit_log))
     [2] [] = ([], [2], []) \<and>
   set_iteration_ok (pairing_collaborators logging_fit) \<and>
   (\<exists>ut. Tracker_match (pairing_collaborators logging_fit) [\<lparr>tlwh = 3, feature = 8\<rparr>]
            (example_tracker ([]::fit_log)) = Some ([(0, 0)] @ [], ut, []) \<and>
          distinct ut \<and>
          set ut = {k \<in> set [1]. time_since_update (tracks (example_tracker ([]::fit_log)) ! k) \<noteq> 1} \<union>
                   set [2])"
proof -
  have a: "stage_a (pairing_collaborators logging_fit)
     [\<lparr>tlwh = 3, feature = 8\<rparr>] (example_tracker ([]::fit_log)) = ([(0, 0)], [1], [])"
    by (simp add: example_simps)
  have c: "iou_track_candidates (tracks (example_tracker ([]::fit_log))) [1] = Some [2]"
    by (simp add: example_simps)
  have b: "stage_b (pairing_collaborators logging_fit) [\<lparr>tlwh = 3, feature = 8\<rparr>]
     (example_tracker ([]::fit_log)) [2] [] = ([], [2], [])"
    by (simp add: example_simps)
  have it: "set_iteration_ok (pairing_collaborators logging_fit)"
    by (rule pairing_set_iteration_ok)
  from match_merge [OF a c b it] a b c it show ?thesis by blast
qed

lemma assignment_ok_distinct:
  assumes "assignment_ok (m, ut, ud) tis dis" and "distinct tis"
  shows "distinct (map fst m @ ut)"
proof -
  from assms(1) have "mset (map fst m @ ut) = mset tis"
    by (simp add: assignment_ok_def)
  with assms(2) show ?thesis
    using mset_eq_imp_distinct_iff by blast
qed

section \<open>The loops of \<^verbatim>\<open>update\<close>\<close>

lemma track_id_Track_update [simp]: "track_id (Track_update env t d) = track_id t"
  by (simp add: Track_update_def split: prod.splits)

lemma track_id_Track_mark_missed [simp]: "track_id (Track_mark_missed t) = track_id t"
  by (simp add: Track_mark_missed_def)

lemma track_id_Track_predict [simp]: "track_id (Track_predict env t) = track_id t"
  by (simp add: Track_predict_def split: prod.splits)

lemma track_id_Track [simp]: "track_id (Track m c tid ninit maxage feat) = tid"
  by (simp add: Track_def)

lemma update_matched_fields:
  "update_matched env dets s ms = Some s' \<Longrightarrow>
     s' = s\<lparr>tracks := tracks s'\<rparr> \<and> length (tracks s') = length (tracks s)"
proof (induction ms arbitrary: s)
  case Nil
  then show ?case by simp
next
  case (Cons p ms)
  obtain ti di where p: "p = (ti, di)" by (cases p)
  from Cons.prems p obtain t d where t: "index (tracks s) ti = Some t"
    and d: "index dets di = Some d"
    and r: "update_matched env dets (s\<lparr>tracks := (tracks s)[ti := Track_update env t d]\<rparr>) ms = Some s'"
    by (auto split: option.splits)
  from Cons.IH [OF r] show ?case by simp
qed

lemma update_matched_in_range:
  "update_matched env dets s ms = Some s' \<Longrightarrow>
     \<forall>p\<in>set ms. fst p < length (tracks s) \<and> snd p < length dets"
proof (induction ms arbitrary: s)
  case Nil
  then show ?case by simp
next
  case (Cons p ms)
  obtain ti di where p: "p = (ti, di)" by (cases p)
  from Cons.prems p obtain t d where t: "index (tracks s) ti = Some t"
    and d: "index dets di = Some d"
    and r: "update_matched env dets (s\<lparr>tracks := (tracks s)[ti := Track_update env t d]\<rparr>) ms = Some s'"
    by (auto split: option.splits)
  from Cons.IH [OF r] t d p show ?case by (auto simp: index_Some_iff)
qed

lemma update_matched_returns:
  "\<forall>p\<in>set ms. fst p < length (tracks s) \<and> snd p < length dets \<Longrightarrow>
     \<exists>s'. update_matched env dets s ms = Some s'"
proof (induction ms arbitrary: s)
  case Nil
  then show ?case by simp
next
  case (Cons p ms)
  obtain ti di where p: "p = (ti, di)" by (cases p)
  let ?s1 = "s\<lparr>tracks := (tracks s)[ti := Track_update env (tracks s ! ti) (dets ! di)]\<rparr>"
  from Cons.prems have "\<forall>p\<in>set ms. fst p < length (tracks ?s1) \<and> snd p < length dets"
    by simp
  from Cons.IH [OF this] Cons.prems p show ?case
    by (simp add: index_in_range)
qed

lemma update_matched_nth_other:
  "update_matched env dets s ms = Some s' \<Longrightarrow> i \<notin> fst ` set ms \<Longrightarrow>
     tracks s' ! i = tracks s ! i"
proof (induction ms arbitrary: s)
  case Nil
  then show ?case by simp
next
  case (Cons p ms)
  obtain ti di where p: "p = (ti, di)" by (cases p)
  from Cons.prems(1) p obtain t d where t: "index (tracks s) ti = Some t"
    and d: "index dets di = Some d"
    and r: "update_matched env dets (s\<lparr>tracks := (tracks s)[ti := Track_update env t d]\<rparr>) ms = Some s'"
    by (auto split: option.splits)
  from Cons.prems(2) p have "i \<noteq> ti" and "i \<notin> fst ` set ms" by auto
  with Cons.IH [OF r] show ?case by simp
qed

lemma update_matched_nth:
  "update_matched env dets s ms = Some s' \<Longrightarrow> distinct (map fst ms) \<Longrightarrow>
     (ti, di) \<in> set ms \<Longrightarrow>
     tracks s' ! ti = Track_update env (tracks s ! ti) (dets ! di)"
proof (induction ms arbitrary: s)
  case Nil
  then show ?case by simp
next
  case (Cons p ms)
  obtain ti0 di0 where p: "p = (ti0, di0)" by (cases p)
  from Cons.prems(1) p obtain t d where t: "index (tracks s) ti0 = Some t"
    and d: "index dets di0 = Some d"
    and r: "update_matched env dets (s\<lparr>tracks := (tracks s)[ti0 := Track_update env t d]\<rparr>) ms = Some s'"
    by (auto split: option.splits)
  from t d have tv: "ti0 < length (tracks s)" "t = tracks s ! ti0" "d = dets ! di0"
    by (simp_all add: index_Some_iff)
  from Cons.prems(2) p have nd: "ti0 \<notin> fst ` set ms" and dm: "distinct (map fst ms)"
    by auto
  show ?case
  proof (cases "(ti, di) = (ti0, di0)")
    case True
    with update_matched_nth_other [OF r nd] tv show ?thesis by simp
  next
    case False
    with Cons.prems(3) p have m: "(ti, di) \<in> set ms" by auto
    with nd have "ti \<noteq> ti0" by force
    with Cons.IH [OF r dm m] show ?thesis by simp
  qed
qed

lemma update_matched_ids:
  "update_matched env dets s ms = Some s' \<Longrightarrow>
     map track_id (tracks s') = map track_id (tracks s)"
proof (induction ms arbitrary: s)
  case Nil
  then show ?case by simp
next
  case (Cons p ms)
  obtain ti di where p: "p = (ti, di)" by (cases p)
  from Cons.prems p obtain t d where t: "index (tracks s) ti = Some t"
    and d: "index dets di = Some d"
    and r: "update_matched env dets (s\<lparr>tracks := (tracks s)[ti := Track_update env t d]\<rparr>) ms = Some s'"
    by (auto split: option.splits)
  from t have "(map track_id (tracks s))[ti := track_id t] = map track_id (tracks s)"
    by (simp add: index_Some_iff list_update_same_conv)
  with Cons.IH [OF r] show ?case by (simp add: map_update)
qed

lemma mark_unmatched_fields:
  "mark_unmatched s ks = Some s' \<Longrightarrow>
     s' = s\<lparr>tracks := tracks s'\<rparr> \<and> length (tracks s') = length (tracks s)"
proof (induction ks arbitrary: s)
  case Nil
  then show ?case by simp
next
  case (Cons k ks)
  from Cons.prems obtain t where t: "index (tracks s) k = Some t"
    and r: "mark_unmatched (s\<lparr>tracks := (tracks s)[k := Track_mark_missed t]\<rparr>) ks = Some s'"
    by (auto split: option.splits)
  from Cons.IH [OF r] show ?case by simp
qed

lemma mark_unmatched_returns:
  "\<forall>k\<in>set ks. k < length (tracks s) \<Longrightarrow> \<exists>s'. mark_unmatched s ks = Some s'"
proof (induction ks arbitrary: s)
  case Nil
  then show ?case by simp
next
  case (Cons k ks)
  let ?s1 = "s\<lparr>tracks := (tracks s)[k := Track_mark_missed (tracks s ! k)]\<rparr>"
  from Cons.prems have "\<forall>k\<in>set ks. k < length (tracks ?s1)" by simp
  from Cons.IH [OF this] Cons.prems show ?case
    by (simp add: index_in_range)
qed

lemma mark_unmatched_nth_other:
  "mark_unmatched s ks = Some s' \<Longrightarrow> i \<notin> set ks \<Longrightarrow> tracks s' ! i = tracks s ! i"
proof (induction ks arbitrary: s)
  case Nil
  then show ?case by simp
next
  case (Cons k ks)
  from Cons.prems(1) obtain t where t: "index (tracks s) k = Some t"
    and r: "mark_unmatched (s\<lparr>tracks := (tracks s)[k := Track_mark_missed t]\<rparr>) ks = Some s'"
    by (auto split: option.splits)
  from Cons.prems(2) have "i \<noteq> k" and "i \<notin> set ks" by auto
  with Cons.IH [OF r] show ?case by simp
qed

lemma mark_unmatched_nth:
  "mark_unmatched s ks = Some s' \<Longrightarrow> distinct ks \<Longrightarrow> k \<in> set ks \<Longrightarrow>
     tracks s' ! k = Track_mark_missed (tracks s ! k)"
proof (induction ks arbitrary: s)
  case Nil
  then show ?case by simp
next
  case (Cons k0 ks)
  from Cons.prems(1) obtain t where t: "index (tracks s) k0 = Some t"
    and r: "mark_unmatched (s\<lparr>tracks := (tracks s)[k0 := Track_mark_missed t]\<rparr>) ks = Some s'"
    by (auto split: option.splits)
  from t have tv: "k0 < length (tracks s)" "t = tracks s ! k0"
    by (simp_all add: index_Some_iff)
  from Cons.prems(2) have nd: "k0 \<notin> set ks" and dk: "distinct ks" by auto
  show ?case
  proof (cases "k = k0")
    case True
    with mark_unmatched_nth_other [OF r nd] tv show ?thesis by simp
  next
    case False
    with Cons.prems(3) have m: "k \<in> set ks" by simp
    with Cons.IH [OF r dk m] False show ?thesis by simp
  qed
qed

lemma mark_unmatched_ids:
  "mark_unmatched s ks = Some s' \<Longrightarrow> map track_id (tracks s') = map track_id (tracks s)"
proof (induction ks arbitrary: s)
  case Nil
  then show ?case by simp
next
  case (Cons k ks)
  from Cons.prems obtain t where t: "index (tracks s) k = Some t"
    and r: "mark_unmatched (s\<lparr>tracks := (tracks s)[k := Track_mark_missed t]\<rparr>) ks = Some s'"
    by (auto split: option.splits)
  from t have "(map track_id (tracks s))[k := track_id t] = map track_id (tracks s)"
    by (simp add: index_Some_iff list_update_same_conv)
  with Cons.IH [OF r] show ?case by (simp add: map_update)
qed

lemma track_id_initiated_track [simp]: "track_id (initiated_track env s d) = next_id s"
  by (simp add: initiated_track_def split: prod.splits)

lemma state_initiated_track [simp]: "state (initiated_track env s d) = Tentative"
  by (simp add: initiated_track_def Track_def split: prod.splits)

lemma features_initiated_track [simp]: "features (initiated_track env s d) = [feature d]"
  by (simp add: initiated_track_def Track_def split: prod.splits)

lemma initiated_track_cong:
  "next_id s = next_id s' \<Longrightarrow> n_init s = n_init s' \<Longrightarrow> max_age s = max_age s' \<Longrightarrow>
     initiated_track env s d = initiated_track env s' d"
  by (simp add: initiated_track_def)

lemma upt_Suc_shift: "[0..<Suc n] = 0 # map Suc [0..<n]"
  by (simp only: upt_conv_Cons [OF zero_less_Suc] map_Suc_upt)

lemma initiate_unmatched_Some_iff:
  "initiate_unmatched env dets s ks = Some s' \<longleftrightarrow>
     (\<forall>k\<in>set ks. k < length dets) \<and>
     s' = s\<lparr>tracks := tracks s @
                 map (\<lambda>j. initiated_track env (s\<lparr>next_id := next_id s + int j\<rparr>) (dets ! (ks ! j)))
                   [0..<length ks],
             next_id := next_id s + int (length ks)\<rparr>"
proof (induction ks arbitrary: s)
  case Nil
  then show ?case by auto
next
  case (Cons k ks)
  show ?case
  proof (cases "k < length dets")
    case False
    then show ?thesis by (simp add: index_def)
  next
    case True
    let ?s1 = "Tracker_initiate_track env s (dets ! k)"
    have e: "initiated_track env (?s1\<lparr>next_id := next_id ?s1 + int j\<rparr>) d =
        initiated_track env (s\<lparr>next_id := next_id s + int (Suc j)\<rparr>) d" for j d
      by (rule initiated_track_cong) (simp_all add: Tracker_initiate_track_def)
    have z: "initiated_track env (s\<lparr>next_id := next_id s + int 0\<rparr>) d = initiated_track env s d" for d
      by (rule initiated_track_cong) simp_all
    have "initiate_unmatched env dets s (k # ks) = initiate_unmatched env dets ?s1 ks"
      using True by (simp add: index_def)
    then show ?thesis
      using True
      by (simp only: Cons.IH upt_Suc_shift length_Cons list.map map_map comp_def nth_Cons_Suc
            nth_Cons_0 e z set_simps ball_simps)
         (simp add: Tracker_initiate_track_def add.assoc)
  qed
qed

lemma gather_features_eq:
  "gather_features feats targets seen ts =
     (feats @ concat (map features (filter is_confirmed ts)),
      targets @ concat (map (\<lambda>t. map (\<lambda>_. track_id t) (features t)) (filter is_confirmed ts)),
      seen @ map (\<lambda>t. if is_confirmed t then t\<lparr>features := []\<rparr> else t) ts)"
  by (induction ts arbitrary: feats targets seen) simp_all

lemma refresh_eq:
  "refresh env s =
     s\<lparr>tracks := map (\<lambda>t. if is_confirmed t then t\<lparr>features := []\<rparr> else t) (tracks s),
       metric := partial_fit env
                   (concat (map features (filter is_confirmed (tracks s))))
                   (concat (map (\<lambda>t. map (\<lambda>_. track_id t) (features t))
                              (filter is_confirmed (tracks s))))
                   (active_targets (tracks s)) (metric s)\<rparr>"
  by (simp add: refresh_def gather_features_eq)

lemma apply_outcomes_Some:
  assumes "apply_outcomes env dets s (m, ut, ud) = Some s3"
  obtains s1 s2 where "update_matched env dets s m = Some s1"
    and "mark_unmatched s1 ut = Some s2"
    and "initiate_unmatched env dets s2 ud = Some s3"
  using assms by (auto simp: apply_outcomes_def split: option.splits)

lemma apply_outcomes_returns:
  assumes m: "\<forall>p\<in>set m. fst p < length (tracks s) \<and> snd p < length dets"
    and ut: "\<forall>k\<in>set ut. k < length (tracks s)"
    and ud: "\<forall>k\<in>set ud. k < length dets"
  shows "\<exists>s3. apply_outcomes env dets s (m, ut, ud) = Some s3"
proof -
  from update_matched_returns [OF m] obtain s1
    where s1: "update_matched env dets s m = Some s1" by blast
  from update_matched_fields [OF s1] ut have "\<forall>k\<in>set ut. k < length (tracks s1)" by simp
  from mark_unmatched_returns [OF this] obtain s2
    where s2: "mark_unmatched s1 ut = Some s2" by blast
  from ud have "\<exists>s3. initiate_unmatched env dets s2 ud = Some s3"
    by (simp add: initiate_unmatched_Some_iff)
  with s1 s2 show ?thesis by (auto simp: apply_outcomes_def)
qed

lemma Tracker_update_Some:
  assumes "Tracker_update env dets s = Some s'"
  obtains m ut ud s3 where "Tracker_match env dets s = Some (m, ut, ud)"
    and "apply_outcomes env dets s (m, ut, ud) = Some s3"
    and "s' = refresh env (prune s3)"
  using assms by (auto simp: Tracker_update_def split: option.splits)

lemma partition_facts:
  assumes t: "mset (map fst m) + mset ut = mset [0..<n]"
    and d: "mset (map snd m) + mset ud = mset [0..<k]"
  shows "distinct (map fst m @ ut)"
    and "\<forall>p\<in>set m. fst p < n \<and> snd p < k"
    and "\<forall>i\<in>set ut. i < n"
    and "\<forall>j\<in>set ud. j < k"
proof -
  from t have e: "mset (map fst m @ ut) = mset [0..<n]" by simp
  then show "distinct (map fst m @ ut)"
    using mset_eq_imp_distinct_iff distinct_upt by blast
  from e have st: "set (map fst m @ ut) = set [0..<n]" by (rule mset_eq_setD)
  from d have "mset (map snd m @ ud) = mset [0..<k]" by simp
  then have sd: "set (map snd m @ ud) = set [0..<k]" by (rule mset_eq_setD)
  from st sd show "\<forall>p\<in>set m. fst p < n \<and> snd p < k" by force
  from st show "\<forall>i\<in>set ut. i < n" by force
  from sd show "\<forall>j\<in>set ud. j < k" by force
qed

lemma mark_unmatched_in_range:
  "mark_unmatched s ks = Some s' \<Longrightarrow> \<forall>k\<in>set ks. k < length (tracks s)"
proof (induction ks arbitrary: s)
  case Nil
  then show ?case by simp
next
  case (Cons k ks)
  from Cons.prems obtain t where t: "index (tracks s) k = Some t"
    and r: "mark_unmatched (s\<lparr>tracks := (tracks s)[k := Track_mark_missed t]\<rparr>) ks = Some s'"
    by (auto split: option.splits)
  from Cons.IH [OF r] t show ?case by (simp add: index_Some_iff)
qed

text \<open>Under the contracts \<^verbatim>\<open>update\<close> returns.\<close>

lemma Tracker_update_returns:
  assumes ok: "solvers_ok env dets s" and it: "set_iteration_ok env"
  obtains m ut ud s3 where "Tracker_match env dets s = Some (m, ut, ud)"
    and "mset (map fst m) + mset ut = mset [0..<length (tracks s)]"
    and "mset (map snd m) + mset ud = mset [0..<length dets]"
    and "apply_outcomes env dets s (m, ut, ud) = Some s3"
    and "Tracker_update env dets s = Some (refresh env (prune s3))"
proof -
  from Tracker_match_partition [OF ok it] obtain m ut ud
    where m: "Tracker_match env dets s = Some (m, ut, ud)"
      and t: "mset (map fst m) + mset ut = mset [0..<length (tracks s)]"
      and d: "mset (map snd m) + mset ud = mset [0..<length dets]"
    by blast
  note p = partition_facts [OF t d]
  from apply_outcomes_returns [OF p(2) p(3) p(4)] obtain s3
    where s3: "apply_outcomes env dets s (m, ut, ud) = Some s3" by blast
  from m s3 have "Tracker_update env dets s = Some (refresh env (prune s3))"
    by (simp add: Tracker_update_def)
  with m t d s3 show ?thesis by (rule that)
qed

text \<open>The tracker after the three loops, track by track.\<close>

lemma apply_outcomes_tracks:
  assumes a: "apply_outcomes env dets s (m, ut, ud) = Some s3"
    and dist: "distinct (map fst m @ ut)"
  shows "length (tracks s3) = length (tracks s) + length ud"
    and "next_id s3 = next_id s + int (length ud)"
    and "metric s3 = metric s"
    and "\<forall>p\<in>set m. tracks s3 ! fst p = Track_update env (tracks s ! fst p) (dets ! snd p)"
    and "\<forall>k\<in>set ut. tracks s3 ! k = Track_mark_missed (tracks s ! k)"
    and "\<forall>i<length (tracks s). i \<notin> fst ` set m \<longrightarrow> i \<notin> set ut \<longrightarrow>
           tracks s3 ! i = tracks s ! i"
    and "\<forall>j<length ud. tracks s3 ! (length (tracks s) + j) =
           initiated_track env (s\<lparr>next_id := next_id s + int j\<rparr>) (dets ! (ud ! j))"
proof -
  from a obtain s1 s2 where s1: "update_matched env dets s m = Some s1"
    and s2: "mark_unmatched s1 ut = Some s2"
    and s3: "initiate_unmatched env dets s2 ud = Some s3"
    by (rule apply_outcomes_Some)
  note f1 = update_matched_fields [OF s1]
  note f2 = mark_unmatched_fields [OF s2]
  from f1 f2 have l2: "length (tracks s2) = length (tracks s)" by simp
  from f1 f2 have n2: "next_id s2 = next_id s" "n_init s2 = n_init s" "max_age s2 = max_age s"
    "metric s2 = metric s"
    by (metis tracker.select_convs tracker.surjective tracker.update_convs(5))+
  from s3 have e3: "s3 = s2\<lparr>tracks := tracks s2 @
                 map (\<lambda>j. initiated_track env (s2\<lparr>next_id := next_id s2 + int j\<rparr>) (dets ! (ud ! j)))
                   [0..<length ud],
             next_id := next_id s2 + int (length ud)\<rparr>"
    by (simp add: initiate_unmatched_Some_iff)
  have t3: "tracks s3 = tracks s2 @
      map (\<lambda>j. initiated_track env (s2\<lparr>next_id := next_id s2 + int j\<rparr>) (dets ! (ud ! j)))
        [0..<length ud]"
    by (subst e3) simp
  show "length (tracks s3) = length (tracks s) + length ud"
    by (simp add: t3 l2)
  show "next_id s3 = next_id s + int (length ud)"
    by (subst e3) (simp add: n2)
  show "metric s3 = metric s"
    by (subst e3) (simp add: n2)
  have low: "tracks s3 ! i = tracks s2 ! i" if "i < length (tracks s)" for i
    using that by (simp add: t3 l2 nth_append)
  from dist have dm: "distinct (map fst m)" and du: "distinct ut"
    and dj: "fst ` set m \<inter> set ut = {}" by auto
  show "\<forall>p\<in>set m. tracks s3 ! fst p = Track_update env (tracks s ! fst p) (dets ! snd p)"
  proof
    fix p assume p: "p \<in> set m"
    obtain ti di where pe: "p = (ti, di)" by (cases p)
    from update_matched_in_range [OF s1] p pe have r: "ti < length (tracks s)" by auto
    from p pe dj have "ti \<notin> set ut" by force
    from mark_unmatched_nth_other [OF s2 this]
      update_matched_nth [OF s1 dm] p pe low [OF r]
    show "tracks s3 ! fst p = Track_update env (tracks s ! fst p) (dets ! snd p)" by simp
  qed
  show "\<forall>k\<in>set ut. tracks s3 ! k = Track_mark_missed (tracks s ! k)"
  proof
    fix k assume k: "k \<in> set ut"
    with dj have nk: "k \<notin> fst ` set m" by blast
    have "tracks s2 ! k = Track_mark_missed (tracks s1 ! k)"
      by (rule mark_unmatched_nth [OF s2 du k])
    moreover have "tracks s1 ! k = tracks s ! k"
      by (rule update_matched_nth_other [OF s1 nk])
    moreover have "k < length (tracks s)"
      using mark_unmatched_in_range [OF s2] k f1 by simp
    ultimately show "tracks s3 ! k = Track_mark_missed (tracks s ! k)"
      using low by simp
  qed
  show "\<forall>i<length (tracks s). i \<notin> fst ` set m \<longrightarrow> i \<notin> set ut \<longrightarrow> tracks s3 ! i = tracks s ! i"
    using low update_matched_nth_other [OF s1] mark_unmatched_nth_other [OF s2] by simp
  show "\<forall>j<length ud. tracks s3 ! (length (tracks s) + j) =
           initiated_track env (s\<lparr>next_id := next_id s + int j\<rparr>) (dets ! (ud ! j))"
  proof (intro allI impI)
    fix j assume j: "j < length ud"
    have "tracks s3 ! (length (tracks s) + j) =
        initiated_track env (s2\<lparr>next_id := next_id s2 + int j\<rparr>) (dets ! (ud ! j))"
      using j by (simp add: t3 l2 [symmetric] nth_append)
    also have "\<dots> = initiated_track env (s\<lparr>next_id := next_id s + int j\<rparr>) (dets ! (ud ! j))"
      by (rule initiated_track_cong) (simp_all add: n2)
    finally show "tracks s3 ! (length (tracks s) + j) =
        initiated_track env (s\<lparr>next_id := next_id s + int j\<rparr>) (dets ! (ud ! j))" .
  qed
qed


lemmas reluctant_simps =
  reluctant_collaborators_def pairing_collaborators_def example_tracker_def example_track_def
  stage_a_def stage_b_def confirmed_tracks_def unconfirmed_tracks_def is_confirmed_def
  iou_track_candidates_def index_def



section \<open>Pruning and the refresh of the metric\<close>

lemma apply_outcomes_fields:
  assumes "apply_outcomes env dets s (m, ut, ud) = Some s3"
  shows "metric s3 = metric s" and "max_age s3 = max_age s" and "n_init s3 = n_init s"
    and "max_iou_distance s3 = max_iou_distance s"
    and "next_id s3 = next_id s + int (length ud)"
    and "map track_id (take (length (tracks s)) (tracks s3)) = map track_id (tracks s)"
    and "map track_id (drop (length (tracks s)) (tracks s3)) =
           map (\<lambda>j. next_id s + int j) [0..<length ud]"
proof -
  from assms obtain s1 s2 where s1: "update_matched env dets s m = Some s1"
    and s2: "mark_unmatched s1 ut = Some s2"
    and s3: "initiate_unmatched env dets s2 ud = Some s3"
    by (rule apply_outcomes_Some)
  from update_matched_fields [OF s1] have e1: "s1 = s\<lparr>tracks := tracks s1\<rparr>"
    and l1: "length (tracks s1) = length (tracks s)" by simp_all
  from mark_unmatched_fields [OF s2] have e2: "s2 = s1\<lparr>tracks := tracks s2\<rparr>"
    and l2: "length (tracks s2) = length (tracks s1)" by simp_all
  have f: "metric s2 = metric s" "max_age s2 = max_age s" "n_init s2 = n_init s"
    "max_iou_distance s2 = max_iou_distance s" "next_id s2 = next_id s"
    by (subst e2, subst e1, simp)+
  from s3 have e3: "s3 = s2\<lparr>tracks := tracks s2 @
                 map (\<lambda>j. initiated_track env (s2\<lparr>next_id := next_id s2 + int j\<rparr>) (dets ! (ud ! j)))
                   [0..<length ud],
             next_id := next_id s2 + int (length ud)\<rparr>"
    by (simp add: initiate_unmatched_Some_iff)
  show "metric s3 = metric s" and "max_age s3 = max_age s" and "n_init s3 = n_init s"
    and "max_iou_distance s3 = max_iou_distance s"
    and "next_id s3 = next_id s + int (length ud)"
    by (subst e3, simp add: f)+
  have t3: "tracks s3 = tracks s2 @
      map (\<lambda>j. initiated_track env (s2\<lparr>next_id := next_id s2 + int j\<rparr>) (dets ! (ud ! j)))
        [0..<length ud]"
    by (subst e3) simp
  have i2: "map track_id (tracks s2) = map track_id (tracks s)"
    using update_matched_ids [OF s1] mark_unmatched_ids [OF s2] by simp
  show "map track_id (take (length (tracks s)) (tracks s3)) = map track_id (tracks s)"
    using i2 l1 l2 by (simp add: t3)
  show "map track_id (drop (length (tracks s)) (tracks s3)) =
           map (\<lambda>j. next_id s + int j) [0..<length ud]"
    using l1 l2 by (simp add: t3 f comp_def)
qed

lemma is_deleted_clear [simp]: "is_deleted (t\<lparr>features := fs\<rparr>) = is_deleted t"
  by (simp add: is_deleted_def)

lemma is_confirmed_clear [simp]: "is_confirmed (t\<lparr>features := fs\<rparr>) = is_confirmed t"
  by (simp add: is_confirmed_def)

lemma refresh_prune_tracks:
  "tracks (refresh env (prune s3)) =
     map (\<lambda>t. if is_confirmed t then t\<lparr>features := []\<rparr> else t)
       (filter (\<lambda>t. \<not> is_deleted t) (tracks s3))"
  by (simp add: refresh_eq prune_def)

text \<open>
  Claim C5. When \<^verbatim>\<open>update\<close> returns, no track of the active set is deleted: the
  tracks that are Deleted after the three loops are dropped before the metric is
  refreshed, and the tracks that remain keep their order (the refresh only resets the
  feature lists of the confirmed ones).
\<close>

theorem update_prunes_deleted:
  assumes "Tracker_update env dets s = Some s'"
  shows "(\<forall>t\<in>set (tracks s'). \<not> is_deleted t) \<and>
     (\<exists>r s3. Tracker_match env dets s = Some r \<and>
        apply_outcomes env dets s r = Some s3 \<and>
        tracks (prune s3) = filter (\<lambda>t. \<not> is_deleted t) (tracks s3) \<and>
        s' = refresh env (prune s3) \<and>
        tracks s' = map (\<lambda>t. if is_confirmed t then t\<lparr>features := []\<rparr> else t)
                      (filter (\<lambda>t. \<not> is_deleted t) (tracks s3)) \<and>
        map track_id (tracks s') =
          map track_id (filter (\<lambda>t. \<not> is_deleted t) (tracks s3)))"
proof -
  from assms obtain m ut ud s3 where m: "Tracker_match env dets s = Some (m, ut, ud)"
    and a: "apply_outcomes env dets s (m, ut, ud) = Some s3"
    and e: "s' = refresh env (prune s3)"
    by (rule Tracker_update_Some)
  have t: "tracks s' = map (\<lambda>t. if is_confirmed t then t\<lparr>features := []\<rparr> else t)
                      (filter (\<lambda>t. \<not> is_deleted t) (tracks s3))"
    by (simp only: e refresh_prune_tracks)
  have p: "tracks (prune s3) = filter (\<lambda>t. \<not> is_deleted t) (tracks s3)"
    by (simp add: prune_def)
  have i: "map track_id (tracks s') = map track_id (filter (\<lambda>t. \<not> is_deleted t) (tracks s3))"
    by (simp add: t comp_def if_distrib [of track_id] cong: if_cong)
  have d: "\<forall>t\<in>set (tracks s'). \<not> is_deleted t"
    by (auto simp: t)
  from m a p e t i have "\<exists>r s3. Tracker_match env dets s = Some r \<and>
        apply_outcomes env dets s r = Some s3 \<and>
        tracks (prune s3) = filter (\<lambda>t. \<not> is_deleted t) (tracks s3) \<and>
        s' = refresh env (prune s3) \<and>
        tracks s' = map (\<lambda>t. if is_confirmed t then t\<lparr>features := []\<rparr> else t)
                      (filter (\<lambda>t. \<not> is_deleted t) (tracks s3)) \<and>
        map track_id (tracks s') =
          map track_id (filter (\<lambda>t. \<not> is_deleted t) (tracks s3))"
    by (intro exI [of _ "(m, ut, ud)"] exI [of _ s3] conjI)
  with d show ?thesis by (rule conjI)
qed

lemma reluctant_example_update:
  "Tracker_update (reluctant_collaborators logging_fit)
     [\<lparr>tlwh = 3, feature = 8\<rparr>, \<lparr>tlwh = 4, feature = 9\<rparr>] (example_tracker ([]::fit_log)) =
   Some \<lparr>metric = [([8], [1], [1, 2])], max_iou_distance = 7 / 10, max_age = 70, n_init = 3,
         tracks =
           [\<lparr>mean = 3, covariance = (), track_id = 1, hits = 7, age = 9,
               time_since_update = 0, state = Confirmed, features = [],
               track_n_init = 3, track_max_age = 70\<rparr>,
            \<lparr>mean = 0, covariance = (), track_id = 2, hits = 4, age = 9,
               time_since_update = 5, state = Confirmed, features = [],
               track_n_init = 3, track_max_age = 70\<rparr>,
            \<lparr>mean = 4, covariance = (), track_id = 6, hits = 0, age = 0,
               time_since_update = 0, state = Tentative, features = [9],
               track_n_init = 3, track_max_age = 70\<rparr>],
         next_id = 7\<rparr>"
  by (simp add: Tracker_update_def Tracker_match_def reluctant_simps apply_outcomes_def
      Tracker_initiate_track_def initiated_track_def Track_def Track_update_def Track_mark_missed_def
      prune_def is_deleted_def refresh_eq active_targets_def logging_fit_def)

theorem update_prunes_deleted_witness:
  "(\<exists>s'. Tracker_update (reluctant_collaborators logging_fit)
            [\<lparr>tlwh = 3, feature = 8\<rparr>, \<lparr>tlwh = 4, feature = 9\<rparr>]
            (example_tracker ([]::fit_log)) = Some s' \<and>
         map track_id (tracks s') = [1, 2, 6] \<and>
         map state (tracks s') = [Confirmed, Confirmed, Tentative] \<and>
         Deleted \<notin> set (map state (tracks s')))"
proof -
  let ?E = "reluctant_collaborators logging_fit"
  let ?D = "[\<lparr>tlwh = 3::nat, feature = 8::nat\<rparr>, \<lparr>tlwh = 4, feature = 9\<rparr>]"
  let ?S = "example_tracker ([]::fit_log)"
  obtain s' where u: "Tracker_update ?E ?D ?S = Some s'"
    by (simp add: reluctant_example_update)
  from update_prunes_deleted [OF u] have "\<forall>t\<in>set (tracks s'). \<not> is_deleted t" ..
  then have d: "Deleted \<notin> set (map state (tracks s'))"
    by (auto simp: is_deleted_def)
  from u have i: "map track_id (tracks s') = [1, 2, 6]"
    and st: "map state (tracks s') = [Confirmed, Confirmed, Tentative]"
    by (auto simp: reluctant_example_update)
  from u i st d show ?thesis by (intro exI [of _ s'] conjI)
qed

lemma zip_replicate_tag: "zip fs (replicate (length fs) x) = map (\<lambda>f. (f, x)) fs"
  by (induction fs) simp_all

lemma zip_concat_tagged:
  "zip (concat (map features ts))
       (concat (map (\<lambda>t. replicate (length (features t)) (track_id t)) ts)) =
   concat (map (\<lambda>t. map (\<lambda>f. (f, track_id t)) (features t)) ts)"
  by (induction ts) (simp_all add: zip_replicate_tag)

lemma refresh_metric:
  "metric (refresh env s) =
     partial_fit env
       (concat (map features (filter is_confirmed (tracks s))))
       (concat (map (\<lambda>t. replicate (length (features t)) (track_id t))
                  (filter is_confirmed (tracks s))))
       (map track_id (filter is_confirmed (tracks s))) (metric s)"
  by (simp add: refresh_eq active_targets_def map_replicate_const)

lemma refresh_confirmed_cleared:
  "\<forall>t\<in>set (tracks (refresh env s)). is_confirmed t \<longrightarrow> features t = []"
  by (auto simp: refresh_eq split: if_splits)

lemma refresh_confirmed_ids:
  "map track_id (filter is_confirmed (tracks (refresh env s))) =
     map track_id (filter is_confirmed (tracks s))"
  by (simp add: refresh_eq filter_map comp_def if_distrib [of is_confirmed]
      if_distrib [of track_id] cong: if_cong)

text \<open>
  Claim C7. The refresh that ends \<^verbatim>\<open>update\<close> passes to \<^verbatim>\<open>partial_fit\<close> the
  accumulated feature lists of the confirmed tracks that survived the pruning,
  concatenated in track order, each feature paired with the identity of its track, and
  the identities of all these confirmed tracks as the active set. When \<^verbatim>\<open>update\<close> has
  returned, the feature list of every confirmed track is empty.
\<close>

theorem update_refreshes_gallery:
  assumes "Tracker_update env dets s = Some s'"
  shows "\<exists>r s3 confirmed feats targets.
     Tracker_match env dets s = Some r \<and>
     apply_outcomes env dets s r = Some s3 \<and>
     confirmed = filter is_confirmed (tracks (prune s3)) \<and>
     feats = concat (map features confirmed) \<and>
     targets = concat (map (\<lambda>t. replicate (length (features t)) (track_id t)) confirmed) \<and>
     zip feats targets = concat (map (\<lambda>t. map (\<lambda>f. (f, track_id t)) (features t)) confirmed) \<and>
     metric s' = partial_fit env feats targets (map track_id confirmed) (metric s) \<and>
     map track_id confirmed = map track_id (filter is_confirmed (tracks s')) \<and>
     (\<forall>t\<in>set (tracks s'). is_confirmed t \<longrightarrow> features t = [])"
proof -
  from assms obtain m ut ud s3 where m: "Tracker_match env dets s = Some (m, ut, ud)"
    and a: "apply_outcomes env dets s (m, ut, ud) = Some s3"
    and e: "s' = refresh env (prune s3)"
    by (rule Tracker_update_Some)
  define confirmed where "confirmed = filter is_confirmed (tracks (prune s3))"
  define feats where "feats = concat (map features confirmed)"
  define targets where
    "targets = concat (map (\<lambda>t. replicate (length (features t)) (track_id t)) confirmed)"
  have z: "zip feats targets =
      concat (map (\<lambda>t. map (\<lambda>f. (f, track_id t)) (features t)) confirmed)"
    unfolding feats_def targets_def by (rule zip_concat_tagged)
  have ms: "metric (prune s3) = metric s"
    using apply_outcomes_fields(1) [OF a] by (simp add: prune_def)
  have f: "metric s' = partial_fit env feats targets (map track_id confirmed) (metric s)"
    unfolding e feats_def targets_def confirmed_def refresh_metric ms ..
  have i: "map track_id confirmed = map track_id (filter is_confirmed (tracks s'))"
    unfolding e confirmed_def refresh_confirmed_ids ..
  have c: "\<forall>t\<in>set (tracks s'). is_confirmed t \<longrightarrow> features t = []"
    unfolding e by (rule refresh_confirmed_cleared)
  from m a confirmed_def feats_def targets_def z f i c show ?thesis
    by (intro exI [of _ "(m, ut, ud)"] exI [of _ s3] exI [of _ confirmed] exI [of _ feats]
        exI [of _ targets] conjI)
qed

theorem update_refreshes_gallery_witness:
  "\<exists>s'. Tracker_update (reluctant_collaborators logging_fit)
           [\<lparr>tlwh = 3, feature = 8\<rparr>, \<lparr>tlwh = 4, feature = 9\<rparr>]
           (example_tracker ([]::fit_log)) = Some s' \<and>
        metric s' = [([8], [1], [1, 2])] \<and>
        map features (filter is_confirmed (tracks s')) = [[], []] \<and>
        map track_id (filter is_confirmed (tracks s')) = [1, 2]"
proof -
  let ?E = "reluctant_collaborators logging_fit"
  let ?D = "[\<lparr>tlwh = 3::nat, feature = 8::nat\<rparr>, \<lparr>tlwh = 4, feature = 9\<rparr>]"
  let ?S = "example_tracker ([]::fit_log)"
  obtain s' where u: "Tracker_update ?E ?D ?S = Some s'"
    by (simp add: reluctant_example_update)
  from update_refreshes_gallery [OF u]
  have c: "\<forall>t\<in>set (tracks s'). is_confirmed t \<longrightarrow> features t = []"
    by blast
  from u have ms: "metric s' = [([8], [1], [1, 2])]"
    and i: "map track_id (filter is_confirmed (tracks s')) = [1, 2]"
    and l: "length (filter is_confirmed (tracks s')) = 2"
    by (auto simp: reluctant_example_update is_confirmed_def)
  from c have "\<forall>t\<in>set (filter is_confirmed (tracks s')). features t = []" by simp
  then have "map features (filter is_confirmed (tracks s')) =
      replicate (length (filter is_confirmed (tracks s'))) []"
    by (simp add: map_replicate_const [symmetric] cong: map_cong)
  with l have fs: "map features (filter is_confirmed (tracks s')) = [[], []]"
    by (simp add: numeral_2_eq_2)
  from u ms fs i show ?thesis by (intro exI [of _ s'] conjI)
qed

section \<open>Identities along a session\<close>

lemma subseq_set_subset: "subseq xs ys \<Longrightarrow> set xs \<subseteq> set ys"
  by (induction rule: list_emb.induct) auto

lemma subseq_sorted_wrt: "subseq xs ys \<Longrightarrow> sorted_wrt R ys \<Longrightarrow> sorted_wrt R xs"
proof (induction rule: list_emb.induct)
  case (list_emb_Nil ys)
  then show ?case by simp
next
  case (list_emb_Cons xs ys y)
  then show ?case by simp
next
  case (list_emb_Cons2 x y xs ys)
  from list_emb_Cons2(2) have "set xs \<subseteq> set ys" by (rule subseq_set_subset)
  with list_emb_Cons2 show ?case by auto
qed

lemma apply_outcomes_new_tentative:
  assumes "apply_outcomes env dets s (m, ut, ud) = Some s3"
  shows "\<forall>t\<in>set (drop (length (tracks s)) (tracks s3)). state t = Tentative"
proof -
  from assms obtain s1 s2 where s1: "update_matched env dets s m = Some s1"
    and s2: "mark_unmatched s1 ut = Some s2"
    and s3: "initiate_unmatched env dets s2 ud = Some s3"
    by (rule apply_outcomes_Some)
  from update_matched_fields [OF s1] mark_unmatched_fields [OF s2]
  have l: "length (tracks s2) = length (tracks s)" by simp
  from s3 have e3: "s3 = s2\<lparr>tracks := tracks s2 @
                 map (\<lambda>j. initiated_track env (s2\<lparr>next_id := next_id s2 + int j\<rparr>) (dets ! (ud ! j)))
                   [0..<length ud],
             next_id := next_id s2 + int (length ud)\<rparr>"
    by (simp add: initiate_unmatched_Some_iff)
  have "tracks s3 = tracks s2 @
      map (\<lambda>j. initiated_track env (s2\<lparr>next_id := next_id s2 + int j\<rparr>) (dets ! (ud ! j)))
        [0..<length ud]"
    by (subst e3) simp
  with l show ?thesis by auto
qed

text \<open>The identities after one \<^verbatim>\<open>update\<close>: those of the survivors, then the new ones.\<close>

lemma Tracker_update_ids:
  assumes "Tracker_update env dets s = Some s'"
  obtains old n where "map track_id (tracks s') = old @ map (\<lambda>j. next_id s + int j) [0..<n]"
    and "subseq old (map track_id (tracks s))"
    and "next_id s' = next_id s + int n"
proof -
  from assms obtain m ut ud s3 where a: "apply_outcomes env dets s (m, ut, ud) = Some s3"
    and e: "s' = refresh env (prune s3)"
    by (rule Tracker_update_Some)
  let ?L = "length (tracks s)"
  let ?keep = "\<lambda>t. \<not> is_deleted t"
  note f = apply_outcomes_fields [OF a]
  have nt: "filter ?keep (drop ?L (tracks s3)) = drop ?L (tracks s3)"
    using apply_outcomes_new_tentative [OF a] by (auto simp: is_deleted_def)
  have "tracks s3 = take ?L (tracks s3) @ drop ?L (tracks s3)" by simp
  then have "filter ?keep (tracks s3) =
      filter ?keep (take ?L (tracks s3)) @ drop ?L (tracks s3)"
    by (metis filter_append nt)
  then have i: "map track_id (filter ?keep (tracks s3)) =
      map track_id (filter ?keep (take ?L (tracks s3))) @
      map (\<lambda>j. next_id s + int j) [0..<length ud]"
    by (simp add: f(7))
  have "subseq (map track_id (filter ?keep (take ?L (tracks s3))))
      (map track_id (take ?L (tracks s3)))"
    by (rule subseq_map) simp
  then have sub: "subseq (map track_id (filter ?keep (take ?L (tracks s3))))
      (map track_id (tracks s))"
    by (simp only: f(6))
  have ids: "map track_id (tracks s') = map track_id (filter ?keep (tracks s3))"
    by (simp add: e refresh_prune_tracks comp_def if_distrib [of track_id] cong: if_cong)
  have nx: "next_id s' = next_id s + int (length ud)"
    by (simp add: e refresh_eq prune_def f(5))
  from i sub nx ids show ?thesis
    by (intro that [of "map track_id (filter ?keep (take ?L (tracks s3)))" "length ud"]) simp_all
qed

lemma ids_ok_init: "ids_ok (Tracker_init g iou ma ni)"
  by (simp add: ids_ok_def Tracker_init_def)

lemma ids_ok_predict: "ids_ok s \<Longrightarrow> ids_ok (Tracker_predict env s)"
  by (simp add: ids_ok_def Tracker_predict_def comp_def)

lemma ids_ok_update:
  assumes i: "ids_ok s" and u: "Tracker_update env dets s = Some s'"
  shows "ids_ok s'"
proof -
  from u obtain old n where e: "map track_id (tracks s') = old @ map (\<lambda>j. next_id s + int j) [0..<n]"
    and sub: "subseq old (map track_id (tracks s))"
    and nx: "next_id s' = next_id s + int n"
    by (rule Tracker_update_ids)
  from i have so: "sorted_wrt (<) (map track_id (tracks s))"
    and b: "\<forall>x\<in>set (map track_id (tracks s)). x < next_id s"
    by (simp_all add: ids_ok_def)
  from sub so have s1: "sorted_wrt (<) old" by (rule subseq_sorted_wrt)
  from subseq_set_subset [OF sub] b have b1: "\<forall>x\<in>set old. x < next_id s" by blast
  have s2: "sorted_wrt (<) (map (\<lambda>j. next_id s + int j) [0..<n])"
    by (simp add: sorted_wrt_map)
  have "sorted_wrt (<) (map track_id (tracks s'))"
    unfolding e using s1 s2 b1 by (auto simp: sorted_wrt_append)
  moreover have "\<forall>x\<in>set (map track_id (tracks s')). x < next_id s'"
    unfolding e nx using b1 by auto
  ultimately show ?thesis by (simp add: ids_ok_def)
qed

lemma ids_ok_calls: "ids_ok s \<Longrightarrow> calls env s cs = Some s' \<Longrightarrow> ids_ok s'"
proof (induction cs arbitrary: s)
  case Nil
  then show ?case by simp
next
  case (Cons c cs)
  show ?case
  proof (cases c)
    case Predict
    with Cons.prems have "calls env (Tracker_predict env s) cs = Some s'" by simp
    from Cons.IH [OF ids_ok_predict [OF Cons.prems(1)] this] show ?thesis .
  next
    case (Update dets)
    with Cons.prems obtain s1 where u: "Tracker_update env dets s = Some s1"
      and r: "calls env s1 cs = Some s'"
      by (auto split: option.splits)
    from Cons.IH [OF ids_ok_update [OF Cons.prems(1) u] r] show ?thesis .
  qed
qed

text \<open>Along a sequence of calls: the survivors keep their identities, the rest is new.\<close>

lemma calls_ids:
  "calls env s cs = Some s' \<Longrightarrow>
     next_id s \<le> next_id s' \<and>
     (\<exists>old new. map track_id (tracks s') = old @ new \<and>
        subseq old (map track_id (tracks s)) \<and>
        (\<forall>i\<in>set new. next_id s \<le> i \<and> i < next_id s'))"
proof (induction cs arbitrary: s)
  case Nil
  then have "s' = s" by simp
  then have "map track_id (tracks s') = map track_id (tracks s) @ []" by simp
  then show ?case using \<open>s' = s\<close> by (intro conjI exI [of _ "map track_id (tracks s)"] exI [of _ "[]"]) simp_all
next
  case (Cons c cs)
  show ?case
  proof (cases c)
    case Predict
    with Cons.prems have r: "calls env (Tracker_predict env s) cs = Some s'" by simp
    have "map track_id (tracks (Tracker_predict env s)) = map track_id (tracks s)"
      and "next_id (Tracker_predict env s) = next_id s"
      by (simp_all add: Tracker_predict_def comp_def)
    with Cons.IH [OF r] show ?thesis by simp
  next
    case (Update dets)
    with Cons.prems obtain s1 where u: "Tracker_update env dets s = Some s1"
      and r: "calls env s1 cs = Some s'"
      by (auto split: option.splits)
    from u obtain old1 n where e1: "map track_id (tracks s1) = old1 @ map (\<lambda>j. next_id s + int j) [0..<n]"
      and sub1: "subseq old1 (map track_id (tracks s))"
      and nx1: "next_id s1 = next_id s + int n"
      by (rule Tracker_update_ids)
    from Cons.IH [OF r] obtain old2 new2 where le2: "next_id s1 \<le> next_id s'"
      and e2: "map track_id (tracks s') = old2 @ new2"
      and sub2: "subseq old2 (map track_id (tracks s1))"
      and b2: "\<forall>i\<in>set new2. next_id s1 \<le> i \<and> i < next_id s'"
      by blast
    from sub2 e1 have "subseq old2 (old1 @ map (\<lambda>j. next_id s + int j) [0..<n])" by simp
    then obtain a b where ab: "old2 = a @ b" and sa: "subseq a old1"
      and sb: "subseq b (map (\<lambda>j. next_id s + int j) [0..<n])"
      by (rule subseq_appendE)
    from sa sub1 have sa': "subseq a (map track_id (tracks s))"
      by (rule subseq_order.order_trans)
    from subseq_set_subset [OF sb] have bb: "\<forall>i\<in>set b. next_id s \<le> i \<and> i < next_id s1"
      unfolding nx1 by auto
    have le: "next_id s \<le> next_id s'" using nx1 le2 by simp
    have e: "map track_id (tracks s') = a @ (b @ new2)" using e2 ab by simp
    have bn: "\<forall>i\<in>set (b @ new2). next_id s \<le> i \<and> i < next_id s'"
      using bb b2 nx1 le2 by auto
    from le e sa' bn show ?thesis
      by (intro conjI exI [of _ a] exI [of _ "b @ new2"])
  qed
qed

lemma calls_append:
  "calls env s (cs @ cs') =
     (case calls env s cs of None \<Rightarrow> None | Some s1 \<Rightarrow> calls env s1 cs')"
proof (induction cs arbitrary: s)
  case Nil
  then show ?case by simp
next
  case (Cons c cs)
  then show ?case by (cases c) (simp_all split: option.splits)
qed

lemmas pairing_run_simps =
  Tracker_update_def Tracker_match_def pairing_collaborators_def pair_in_order_def
  stage_a_def stage_b_def confirmed_tracks_def unconfirmed_tracks_def is_confirmed_def
  iou_track_candidates_def index_def apply_outcomes_def
  Tracker_initiate_track_def initiated_track_def Track_def Track_update_def Track_mark_missed_def
  Track_predict_def Tracker_predict_def Tracker_init_def
  prune_def is_deleted_def refresh_eq active_targets_def logging_fit_def

lemma pairing_session_first:
  "calls (pairing_collaborators logging_fit) (Tracker_init ([]::fit_log) (7 / 10) 70 3)
     [Update [\<lparr>tlwh = 3, feature = 8\<rparr>, \<lparr>tlwh = 4, feature = 9\<rparr>]] =
   Some \<lparr>metric = [([], [], [])], max_iou_distance = 7 / 10, max_age = 70, n_init = 3,
         tracks =
           [\<lparr>mean = 3, covariance = (), track_id = 1, hits = 0, age = 0,
               time_since_update = 0, state = Tentative, features = [8],
               track_n_init = 3, track_max_age = 70\<rparr>,
            \<lparr>mean = 4, covariance = (), track_id = 2, hits = 0, age = 0,
               time_since_update = 0, state = Tentative, features = [9],
               track_n_init = 3, track_max_age = 70\<rparr>],
         next_id = 3\<rparr>"
  by (simp add: pairing_run_simps)

lemma pairing_session_second:
  "calls (pairing_collaborators logging_fit)
     \<lparr>metric = [([], [], [])], max_iou_distance = 7 / 10, max_age = 70, n_init = 3,
         tracks =
           [\<lparr>mean = 3, covariance = (), track_id = 1, hits = 0, age = 0,
               time_since_update = 0, state = Tentative, features = [8],
               track_n_init = 3, track_max_age = 70\<rparr>,
            \<lparr>mean = 4, covariance = (), track_id = 2, hits = 0, age = 0,
               time_since_update = 0, state = Tentative, features = [9],
               track_n_init = 3, track_max_age = 70\<rparr>],
         next_id = 3\<rparr>
     [Predict, Update [\<lparr>tlwh = 5, feature = 10\<rparr>], Predict,
      Update [\<lparr>tlwh = 5, feature = 10\<rparr>, \<lparr>tlwh = 6, feature = 11\<rparr>]] =
   Some \<lparr>metric = [([], [], []), ([], [], []), ([], [], [])],
         max_iou_distance = 7 / 10, max_age = 70, n_init = 3,
         tracks =
           [\<lparr>mean = 5, covariance = (), track_id = 1, hits = 2, age = 2,
               time_since_update = 0, state = Tentative, features = [8, 10, 10],
               track_n_init = 3, track_max_age = 70\<rparr>,
            \<lparr>mean = 6, covariance = (), track_id = 3, hits = 0, age = 0,
               time_since_update = 0, state = Tentative, features = [11],
               track_n_init = 3, track_max_age = 70\<rparr>],
         next_id = 4\<rparr>"
  by (simp add: pairing_run_simps)

section \<open>The refresh is never skipped\<close>

lemma features_Track_mark_missed [simp]: "features (Track_mark_missed t) = features t"
  by (simp add: Track_mark_missed_def)

lemma is_confirmed_Track_mark_missed:
  "is_confirmed (Track_mark_missed t) \<Longrightarrow> is_confirmed t"
  by (simp add: Track_mark_missed_def is_confirmed_def split: if_splits)

lemma features_Track_predict [simp]: "features (Track_predict env t) = features t"
  by (simp add: Track_predict_def split: prod.splits)

lemma is_confirmed_Track_predict [simp]:
  "is_confirmed (Track_predict env t) = is_confirmed t"
  by (simp add: Track_predict_def is_confirmed_def split: prod.splits)

lemma concat_map_empty: "\<forall>x\<in>set xs. f x = [] \<Longrightarrow> concat (map f xs) = []"
  by (induction xs) simp_all

lemma features_flushed_init: "features_flushed (Tracker_init g iou ma ni)"
  by (simp add: features_flushed_def Tracker_init_def)

lemma features_flushed_predict:
  "features_flushed s \<Longrightarrow> features_flushed (Tracker_predict env s)"
  by (auto simp: features_flushed_def Tracker_predict_def)

lemma features_flushed_update:
  "Tracker_update env dets s = Some s' \<Longrightarrow> features_flushed s'"
  by (erule Tracker_update_Some) (simp add: features_flushed_def refresh_confirmed_cleared)

lemma features_flushed_calls:
  "features_flushed s \<Longrightarrow> calls env s cs = Some s' \<Longrightarrow> features_flushed s'"
proof (induction cs arbitrary: s)
  case Nil
  then show ?case by simp
next
  case (Cons c cs)
  show ?case
  proof (cases c)
    case Predict
    with Cons.prems have "calls env (Tracker_predict env s) cs = Some s'" by simp
    from Cons.IH [OF features_flushed_predict [OF Cons.prems(1)] this] show ?thesis .
  next
    case (Update dets)
    with Cons.prems obtain s1 where u: "Tracker_update env dets s = Some s1"
      and r: "calls env s1 cs = Some s'"
      by (auto split: option.splits)
    from Cons.IH [OF features_flushed_update [OF u] r] show ?thesis .
  qed
qed

text \<open>The refresh when the confirmed tracks hold no features, or when there are none.\<close>

lemma refresh_nothing_to_pass:
  assumes "\<forall>t\<in>set (tracks s). is_confirmed t \<longrightarrow> features t = []"
  shows "metric (refresh env s) =
     partial_fit env [] [] (map track_id (filter is_confirmed (tracks s))) (metric s)"
proof -
  from assms have a: "\<forall>t\<in>set (filter is_confirmed (tracks s)). features t = []" by simp
  then have b: "\<forall>t\<in>set (filter is_confirmed (tracks s)).
      replicate (length (features t)) (track_id t) = []" by simp
  show ?thesis
    by (simp only: refresh_metric concat_map_empty [OF a] concat_map_empty [OF b])
qed

text \<open>\<^verbatim>\<open>update\<close> on no detections: every track is marked missed and nothing is created.\<close>

lemma no_detections_outcome:
  assumes ok: "solvers_ok env [] s" and it: "set_iteration_ok env"
  obtains ut s3 where "Tracker_match env [] s = Some ([], ut, [])"
    and "mset ut = mset [0..<length (tracks s)]"
    and "apply_outcomes env [] s ([], ut, []) = Some s3"
    and "tracks s3 = map Track_mark_missed (tracks s)"
    and "next_id s3 = next_id s"
    and "metric s3 = metric s"
    and "Tracker_update env [] s = Some (refresh env (prune s3))"
proof -
  from ok it obtain m ut ud s3 where m: "Tracker_match env [] s = Some (m, ut, ud)"
    and t: "mset (map fst m) + mset ut = mset [0..<length (tracks s)]"
    and d: "mset (map snd m) + mset ud = mset [0..<length ([]::('a, 'b) detection list)]"
    and a: "apply_outcomes env [] s (m, ut, ud) = Some s3"
    and u: "Tracker_update env [] s = Some (refresh env (prune s3))"
    by (rule Tracker_update_returns)
  from d have e: "m = []" "ud = []" by simp_all
  from t e have tu: "mset ut = mset [0..<length (tracks s)]" by simp
  then have su: "set ut = {0..<length (tracks s)}"
    by (metis mset_eq_setD set_upt)
  from tu have du: "distinct (map fst ([]::(nat \<times> nat) list) @ ut)"
    using mset_eq_imp_distinct_iff distinct_upt by fastforce
  from a e have a': "apply_outcomes env [] s ([], ut, []) = Some s3" by simp
  note r = apply_outcomes_tracks [OF a' du]
  from r(1) have l: "length (tracks s3) = length (tracks s)" by simp
  have "tracks s3 = map Track_mark_missed (tracks s)"
  proof (rule nth_equalityI)
    show "length (tracks s3) = length (map Track_mark_missed (tracks s))" using l by simp
  next
    fix i assume "i < length (tracks s3)"
    with l su have "i \<in> set ut" and "i < length (tracks s)" by simp_all
    with r(5) show "tracks s3 ! i = map Track_mark_missed (tracks s) ! i" by simp
  qed
  moreover from r(2) have "next_id s3 = next_id s" by simp
  moreover note r(3)
  ultimately show ?thesis
    using m e tu a' u by (intro that [of ut s3]) simp_all
qed

text \<open>
  The tracker after the three loops, as far as the refresh depends on it.
\<close>

lemma update_outcome:
  assumes ok: "solvers_ok env dets s" and it: "set_iteration_ok env"
  obtains s3 where "metric s3 = metric s"
    and "Tracker_update env dets s = Some (refresh env (prune s3))"
    and "dets = [] \<longrightarrow> tracks s3 = map Track_mark_missed (tracks s)"
proof (cases "dets = []")
  case True
  with ok have ok0: "solvers_ok env [] s" by simp
  from ok0 it obtain ut s3 where "tracks s3 = map Track_mark_missed (tracks s)"
    and "metric s3 = metric s"
    and "Tracker_update env [] s = Some (refresh env (prune s3))"
    by (rule no_detections_outcome)
  with True show ?thesis by (intro that [of s3]) simp_all
next
  case False
  from ok it obtain m ut ud s3 where a: "apply_outcomes env dets s (m, ut, ud) = Some s3"
    and u: "Tracker_update env dets s = Some (refresh env (prune s3))"
    by (rule Tracker_update_returns)
  from apply_outcomes_fields(1) [OF a] u False show ?thesis
    by (intro that [of s3]) simp_all
qed

text \<open>
  Claim C10. Every call of \<^verbatim>\<open>update\<close> on a tracker in session invokes \<^verbatim>\<open>partial_fit\<close>
  exactly once: the metric after the call is the metric before it with one
  \<^verbatim>\<open>partial_fit\<close> applied, on feature and target lists of equal length and the
  identities of the confirmed tracks. The refresh is not skipped when no track is
  confirmed at that point, nor when there are no detections; in both cases the feature
  and target lists are empty. The solvers are taken to honour their contract, so that
  \<^verbatim>\<open>update\<close> returns.
\<close>

theorem partial_fit_once:
  assumes r: "calls env (Tracker_init g iou ma ni) cs = Some s"
    and ok: "solvers_ok env dets s" and it: "set_iteration_ok env"
  shows "\<exists>s' feats targets.
     Tracker_update env dets s = Some s' \<and>
     metric s' =
       partial_fit env feats targets (map track_id (filter is_confirmed (tracks s'))) (metric s) \<and>
     length feats = length targets \<and>
     ((\<forall>t\<in>set (tracks s'). \<not> is_confirmed t) \<longrightarrow> feats = [] \<and> targets = []) \<and>
     (dets = [] \<longrightarrow> feats = [] \<and> targets = [])"
proof -
  from ok it obtain s3 where m3: "metric s3 = metric s"
    and u: "Tracker_update env dets s = Some (refresh env (prune s3))"
    and nd: "dets = [] \<longrightarrow> tracks s3 = map Track_mark_missed (tracks s)"
    by (rule update_outcome)
  define s' where "s' = refresh env (prune s3)"
  define conf where "conf = filter is_confirmed (tracks (prune s3))"
  define feats where "feats = concat (map features conf)"
  define targets where
    "targets = concat (map (\<lambda>t. replicate (length (features t)) (track_id t)) conf)"
  have ms: "metric (prune s3) = metric s"
    using m3 by (simp add: prune_def)
  have ci: "map track_id (filter is_confirmed (tracks s')) = map track_id conf"
    unfolding s'_def conf_def by (rule refresh_confirmed_ids)
  have f: "metric s' =
      partial_fit env feats targets (map track_id (filter is_confirmed (tracks s'))) (metric s)"
    unfolding ci unfolding s'_def feats_def targets_def conf_def refresh_metric ms ..
  have len: "length feats = length targets"
    unfolding feats_def targets_def by (simp add: length_concat comp_def)
  have none: "feats = [] \<and> targets = []" if "\<forall>t\<in>set (tracks s'). \<not> is_confirmed t"
  proof -
    from that have "filter is_confirmed (tracks s') = []"
      by (simp add: filter_empty_conv)
    with ci have "conf = []" by simp
    then show ?thesis by (simp add: feats_def targets_def)
  qed
  have nodet: "feats = [] \<and> targets = []" if "dets = []"
  proof -
    from r have fl: "features_flushed s"
      by (rule features_flushed_calls [OF features_flushed_init])
    from nd that have t3: "tracks s3 = map Track_mark_missed (tracks s)" by simp
    have c3: "\<forall>t\<in>set (tracks s3). is_confirmed t \<longrightarrow> features t = []"
      using fl by (auto simp: t3 features_flushed_def dest: is_confirmed_Track_mark_missed)
    have a1: "\<forall>t\<in>set conf. features t = []"
      using c3 by (simp add: conf_def prune_def)
    then have a2: "\<forall>t\<in>set conf. replicate (length (features t)) (track_id t) = []"
      by simp
    from concat_map_empty [OF a1] concat_map_empty [OF a2] show ?thesis
      by (simp add: feats_def targets_def)
  qed
  from u have u': "Tracker_update env dets s = Some s'" by (simp add: s'_def)
  from none have n': "(\<forall>t\<in>set (tracks s'). \<not> is_confirmed t) \<longrightarrow> feats = [] \<and> targets = []"
    by (rule impI)
  from nodet have d': "dets = [] \<longrightarrow> feats = [] \<and> targets = []"
    by (rule impI)
  from u' f len n' d' show ?thesis
    by (intro exI [of _ s'] exI [of _ feats] exI [of _ targets] conjI)
qed

lemma pairing_session_confirmed:
  "calls (pairing_collaborators logging_fit) (Tracker_init ([]::fit_log) (7 / 10) 70 1)
     [Update [\<lparr>tlwh = 3, feature = 8\<rparr>], Predict, Update [\<lparr>tlwh = 5, feature = 10\<rparr>], Predict] =
   Some \<lparr>metric = [([], [], []), ([8, 10], [1, 1], [1])],
         max_iou_distance = 7 / 10, max_age = 70, n_init = 1,
         tracks =
           [\<lparr>mean = 5, covariance = (), track_id = 1, hits = 1, age = 2,
               time_since_update = 1, state = Confirmed, features = [],
               track_n_init = 1, track_max_age = 70\<rparr>],
         next_id = 2\<rparr>"
  by (simp add: pairing_run_simps)

theorem partial_fit_once_witness:
  "\<exists>s s'.
     calls (pairing_collaborators logging_fit) (Tracker_init ([]::fit_log) (7 / 10) 70 1)
       [Update [\<lparr>tlwh = 3, feature = 8\<rparr>], Predict, Update [\<lparr>tlwh = 5, feature = 10\<rparr>],
        Predict] = Some s \<and>
     solvers_ok (pairing_collaborators logging_fit) [] s \<and>
     set_iteration_ok (pairing_collaborators logging_fit) \<and>
     Tracker_update (pairing_collaborators logging_fit) [] s = Some s' \<and>
     metric s = [([], [], []), ([8, 10], [1, 1], [1])] \<and>
     metric s' = metric s @ [([], [], [1])]"
proof -
  let ?E = "pairing_collaborators logging_fit"
  let ?s = "\<lparr>metric = [([], [], []), ([8, 10], [1, 1], [1])] :: fit_log,
         max_iou_distance = 7 / 10, max_age = 70, n_init = 1,
         tracks =
           [\<lparr>mean = 5::nat, covariance = (), track_id = 1, hits = 1, age = 2,
               time_since_update = 1, state = Confirmed, features = [] :: nat list,
               track_n_init = 1, track_max_age = 70\<rparr>],
         next_id = 2\<rparr>"
  have r: "calls ?E (Tracker_init ([]::fit_log) (7 / 10) 70 1)
       [Update [\<lparr>tlwh = 3, feature = 8\<rparr>], Predict, Update [\<lparr>tlwh = 5, feature = 10\<rparr>],
        Predict] = Some ?s"
    by (rule pairing_session_confirmed)
  have ok: "solvers_ok ?E [] ?s"
    by (simp add: solvers_ok_def assignment_ok_def pairing_collaborators_def pair_in_order_def
          stage_a_def stage_b_def confirmed_tracks_def unconfirmed_tracks_def is_confirmed_def
          iou_track_candidates_def index_def)
  have it: "set_iteration_ok ?E"
    by (rule pairing_set_iteration_ok)
  from partial_fit_once [OF r ok it] obtain s' feats targets
    where u: "Tracker_update ?E [] ?s = Some s'"
      and f: "metric s' =
        partial_fit ?E feats targets (map track_id (filter is_confirmed (tracks s'))) (metric ?s)"
      and e: "feats = [] \<and> targets = []"
    by blast
  have c: "Tracker_update ?E [] ?s =
      Some (?s\<lparr>metric := [([], [], []), ([8, 10], [1, 1], [1]), ([], [], [1])]\<rparr>)"
    by (simp add: pairing_run_simps)
  from u c have i: "map track_id (filter is_confirmed (tracks s')) = [1]"
    by (auto simp: is_confirmed_def)
  have m0: "metric ?s = [([], [], []), ([8, 10], [1, 1], [1])]" by simp
  from f e i have "metric s' = partial_fit ?E [] [] [1] (metric ?s)" by simp
  then have m1: "metric s' = metric ?s @ [([], [], [1])]"
    by (simp add: pairing_collaborators_def logging_fit_def)
  from r ok it u m0 m1 show ?thesis
    by (intro exI [of _ ?s] exI [of _ s'] conjI)
qed

section \<open>The empty cases\<close>

lemma clear_flushed:
  "\<forall>t\<in>set ts. is_confirmed t \<longrightarrow> features t = [] \<Longrightarrow>
     map (\<lambda>t. if is_confirmed t then t\<lparr>features := []\<rparr> else t) ts = ts"
  by (induction ts) auto

text \<open>\<^verbatim>\<open>update\<close> on a tracker without tracks: every detection initiates a track.\<close>

lemma no_tracks_outcome:
  assumes ok: "solvers_ok env dets s" and it: "set_iteration_ok env" and e: "tracks s = []"
  obtains ud s3 where "Tracker_match env dets s = Some ([], [], ud)"
    and "mset ud = mset [0..<length dets]"
    and "tracks s3 =
           map (\<lambda>j. initiated_track env (s\<lparr>next_id := next_id s + int j\<rparr>) (dets ! (ud ! j)))
             [0..<length dets]"
    and "next_id s3 = next_id s + int (length dets)"
    and "metric s3 = metric s"
    and "Tracker_update env dets s = Some (refresh env (prune s3))"
proof -
  from ok it obtain m ut ud s3 where m: "Tracker_match env dets s = Some (m, ut, ud)"
    and t: "mset (map fst m) + mset ut = mset [0..<length (tracks s)]"
    and d: "mset (map snd m) + mset ud = mset [0..<length dets]"
    and a: "apply_outcomes env dets s (m, ut, ud) = Some s3"
    and u: "Tracker_update env dets s = Some (refresh env (prune s3))"
    by (rule Tracker_update_returns)
  from t e have z: "m = []" "ut = []" by simp_all
  from d z have du: "mset ud = mset [0..<length dets]" by simp
  then have "size (mset ud) = size (mset [0..<length dets])" by simp
  then have lu: "length ud = length dets" by simp
  from a z have a': "apply_outcomes env dets s ([], [], ud) = Some s3" by simp
  have "distinct (map fst ([]::(nat \<times> nat) list) @ [])" by simp
  note r = apply_outcomes_tracks [OF a' this]
  have t3: "tracks s3 =
      map (\<lambda>j. initiated_track env (s\<lparr>next_id := next_id s + int j\<rparr>) (dets ! (ud ! j)))
        [0..<length dets]"
  proof (rule nth_equalityI)
    show "length (tracks s3) = length (map (\<lambda>j. initiated_track env
        (s\<lparr>next_id := next_id s + int j\<rparr>) (dets ! (ud ! j))) [0..<length dets])"
      using r(1) e lu by simp
  next
    fix i assume "i < length (tracks s3)"
    with r(1) e lu have i: "i < length ud" "i < length dets" by simp_all
    with r(7) e show "tracks s3 ! i = map (\<lambda>j. initiated_track env
        (s\<lparr>next_id := next_id s + int j\<rparr>) (dets ! (ud ! j))) [0..<length dets] ! i"
      by simp
  qed
  from r(2) lu have n3: "next_id s3 = next_id s + int (length dets)" by simp
  from m z du t3 n3 r(3) u show ?thesis
    by (intro that [of ud s3]) simp_all
qed

section \<open>The two stages inside \<^verbatim>\<open>update\<close>\<close>

text \<open>
  With the outcome of Stage A named, \<^verbatim>\<open>_match\<close> and \<^verbatim>\<open>update\<close> under the contracts.
\<close>

lemma update_stages:
  assumes ok: "solvers_ok env dets s" and it: "set_iteration_ok env"
    and a: "stage_a env dets s = (ma, uta, uda)"
  obtains mb utb udb s3 where
    "stage_b env dets s
       (unconfirmed_tracks (tracks s) @
        filter (\<lambda>k. time_since_update (tracks s ! k) = 1) uta) uda = (mb, utb, udb)"
    and "Tracker_match env dets s =
           Some (ma @ mb,
                 list_of_set env
                   (filter (\<lambda>k. time_since_update (tracks s ! k) \<noteq> 1) uta @ utb),
                 udb)"
    and "distinct (map fst (ma @ mb) @
           list_of_set env (filter (\<lambda>k. time_since_update (tracks s ! k) \<noteq> 1) uta @ utb))"
    and "apply_outcomes env dets s
           (ma @ mb,
            list_of_set env (filter (\<lambda>k. time_since_update (tracks s ! k) \<noteq> 1) uta @ utb),
            udb) = Some s3"
    and "Tracker_update env dets s = Some (refresh env (prune s3))"
proof -
  define cands where "cands = unconfirmed_tracks (tracks s) @
      filter (\<lambda>k. time_since_update (tracks s ! k) = 1) uta"
  obtain mb utb udb where b: "stage_b env dets s cands uda = (mb, utb, udb)"
    by (cases "stage_b env dets s cands uda")
  note u = solvers_ok_unfold [OF ok a]
  have m: "Tracker_match env dets s =
      Some (ma @ mb,
            list_of_set env (filter (\<lambda>k. time_since_update (tracks s ! k) \<noteq> 1) uta @ utb),
            udb)"
    by (rule Tracker_match_stages(2) [OF a u(2) cands_def b])
  obtain m' ut' ud' s3 where m': "Tracker_match env dets s = Some (m', ut', ud')"
    and t: "mset (map fst m') + mset ut' = mset [0..<length (tracks s)]"
    and d: "mset (map snd m') + mset ud' = mset [0..<length dets]"
    and ap: "apply_outcomes env dets s (m', ut', ud') = Some s3"
    and up: "Tracker_update env dets s = Some (refresh env (prune s3))"
    by (rule Tracker_update_returns [OF ok it])
  from m m' have e: "m' = ma @ mb"
    "ut' = list_of_set env (filter (\<lambda>k. time_since_update (tracks s ! k) \<noteq> 1) uta @ utb)"
    "ud' = udb"
    by simp_all
  note p = partition_facts(1) [OF t d]
  show ?thesis
  proof (rule that)
    show "stage_b env dets s
       (unconfirmed_tracks (tracks s) @
        filter (\<lambda>k. time_since_update (tracks s ! k) = 1) uta) uda = (mb, utb, udb)"
      using b by (simp only: cands_def)
    show "Tracker_match env dets s =
           Some (ma @ mb,
                 list_of_set env
                   (filter (\<lambda>k. time_since_update (tracks s ! k) \<noteq> 1) uta @ utb),
                 udb)" by (rule m)
    show "distinct (map fst (ma @ mb) @
           list_of_set env (filter (\<lambda>k. time_since_update (tracks s ! k) \<noteq> 1) uta @ utb))"
      using p by (simp only: e)
    show "apply_outcomes env dets s
           (ma @ mb,
            list_of_set env (filter (\<lambda>k. time_since_update (tracks s ! k) \<noteq> 1) uta @ utb),
            udb) = Some s3"
      using ap by (simp only: e)
    show "Tracker_update env dets s = Some (refresh env (prune s3))" by (rule up)
  qed
qed

text \<open>The third instance on the tracker of the examples.\<close>

lemma greedy_set_iteration_ok: "set_iteration_ok greedy_collaborators"
  by (simp add: set_iteration_ok_def greedy_collaborators_def)

lemmas greedy_simps =
  greedy_collaborators_def nn_distance_def gate_by_position_def position_cost_def
  gated_metric_def example_gallery_def example_tracker_def example_track_def
  stage_a_def stage_b_def confirmed_tracks_def unconfirmed_tracks_def is_confirmed_def
  iou_track_candidates_def index_def

lemma greedy_example_a:
  "stage_a greedy_collaborators
     [\<lparr>tlwh = 0, feature = 99\<rparr>, \<lparr>tlwh = 0, feature = 98\<rparr>, \<lparr>tlwh = 0, feature = 97\<rparr>]
     (example_tracker example_gallery) = ([], [0, 1], [0, 1, 2])"
  by (simp add: greedy_simps upt_rec)

lemma greedy_example_b:
  "stage_b greedy_collaborators
     [\<lparr>tlwh = 0, feature = 99\<rparr>, \<lparr>tlwh = 0, feature = 98\<rparr>, \<lparr>tlwh = 0, feature = 97\<rparr>]
     (example_tracker example_gallery) [2, 0] [0, 1, 2] = ([(2, 0), (0, 1)], [], [2])"
  by (simp add: greedy_simps upt_rec)

lemma greedy_example_ok:
  "solvers_ok greedy_collaborators
     [\<lparr>tlwh = 0, feature = 99\<rparr>, \<lparr>tlwh = 0, feature = 98\<rparr>, \<lparr>tlwh = 0, feature = 97\<rparr>]
     (example_tracker example_gallery)"
  by (simp add: solvers_ok_def assignment_ok_def greedy_simps upt_rec)

lemma greedy_example_gated:
  "gated_metric greedy_collaborators (metric (example_tracker example_gallery))
     (tracks (example_tracker example_gallery))
     [\<lparr>tlwh = 3, feature = 21\<rparr>, \<lparr>tlwh = 50, feature = 8\<rparr>] [0, 1] [0, 1] =
   Some [[13, 100000], [1, 100000]]"
  by (simp add: greedy_simps)

lemma greedy_example_cascade:
  "matching_cascade greedy_collaborators
     (gated_metric greedy_collaborators (metric (example_tracker example_gallery)))
     (matching_threshold greedy_collaborators (metric (example_tracker example_gallery)))
     (max_age (example_tracker example_gallery))
     (tracks (example_tracker example_gallery))
     [\<lparr>tlwh = 3, feature = 21\<rparr>, \<lparr>tlwh = 50, feature = 8\<rparr>] [0, 1] = ([(1, 0)], [0], [1])"
  by (simp add: greedy_simps upt_rec)

lemma greedy_example_match:
  "Tracker_match greedy_collaborators
     [\<lparr>tlwh = 3, feature = 21\<rparr>, \<lparr>tlwh = 50, feature = 8\<rparr>]
     (example_tracker example_gallery) = Some ([(1, 0)], [2, 0], [1])"
  by (simp add: Tracker_match_def greedy_simps upt_rec)

lemma greedy_example_ok2:
  "solvers_ok greedy_collaborators
     [\<lparr>tlwh = 3, feature = 21\<rparr>, \<lparr>tlwh = 50, feature = 8\<rparr>]
     (example_tracker example_gallery)"
  by (simp add: solvers_ok_def assignment_ok_def greedy_simps upt_rec)

lemma example_confirmed:
  "confirmed_tracks (tracks (example_tracker g)) = [0, 1]"
  by (simp add: example_tracker_def example_track_def confirmed_tracks_def is_confirmed_def upt_rec)

text \<open>
  Claim C2. Stage A of \<^verbatim>\<open>update\<close>: the cascade solver is called with the closure
  \<^verbatim>\<open>gated_metric\<close>, the threshold of the metric, \<open>max_age\<close>, all tracks, all detections and,
  as track indices, exactly the indices of the confirmed tracks. Its matches and
  leftover tracks are together exactly the confirmed indices, so that no track that is
  not confirmed takes part, and its matches and leftover detections are all the
  detections. On indices in range the cost function is \<^verbatim>\<open>gate_cost_matrix\<close> applied to
  the appearance distance between the features of the detections and the identities of
  the tracks. The matches of this very call open the result of \<^verbatim>\<open>_match\<close>, and \<^verbatim>\<open>update\<close>,
  which returns, updates each of their (confirmed) tracks with its detection. The two
  solvers are taken to honour their contract at the two calls.
\<close>

theorem stage_a_confirmed_only:
  assumes ok: "solvers_ok env dets s" and it: "set_iteration_ok env"
  shows "\<exists>ma uta uda mb utb udb s3.
     matching_cascade env (gated_metric env (metric s)) (matching_threshold env (metric s))
       (max_age s) (tracks s) dets (confirmed_tracks (tracks s)) = (ma, uta, uda) \<and>
     set (confirmed_tracks (tracks s)) =
       {i. i < length (tracks s) \<and> is_confirmed (tracks s ! i)} \<and>
     fst ` set ma \<union> set uta = {i. i < length (tracks s) \<and> is_confirmed (tracks s ! i)} \<and>
     snd ` set ma \<union> set uda = {j. j < length dets} \<and>
     (\<forall>i<length (tracks s). \<not> is_confirmed (tracks s ! i) \<longrightarrow>
        i \<notin> fst ` set ma \<and> i \<notin> set uta) \<and>
     (\<forall>tis dis. (\<forall>i\<in>set tis. i < length (tracks s)) \<longrightarrow> (\<forall>j\<in>set dis. j < length dets) \<longrightarrow>
        gated_metric env (metric s) (tracks s) dets tis dis =
          Some (gate_cost_matrix env
                  (metric_distance env (metric s)
                     (map (\<lambda>j. feature (dets ! j)) dis)
                     (map (\<lambda>i. track_id (tracks s ! i)) tis))
                  (tracks s) dets tis dis)) \<and>
     Tracker_match env dets s =
       Some (ma @ mb,
             list_of_set env
               (filter (\<lambda>k. time_since_update (tracks s ! k) \<noteq> 1) uta @ utb),
             udb) \<and>
     apply_outcomes env dets s
       (ma @ mb,
        list_of_set env (filter (\<lambda>k. time_since_update (tracks s ! k) \<noteq> 1) uta @ utb),
        udb) = Some s3 \<and>
     Tracker_update env dets s = Some (refresh env (prune s3)) \<and>
     (\<forall>p\<in>set ma.
        is_confirmed (tracks s ! fst p) \<and>
        tracks s3 ! fst p = Track_update env (tracks s ! fst p) (dets ! snd p))"
proof -
  obtain ma uta uda where a: "stage_a env dets s = (ma, uta, uda)"
    by (cases "stage_a env dets s")
  define rest where "rest = filter (\<lambda>k. time_since_update (tracks s ! k) \<noteq> 1) uta"
  note u = solvers_ok_unfold [OF ok a]
  obtain mb utb udb s3 where
    m: "Tracker_match env dets s = Some (ma @ mb, list_of_set env (rest @ utb), udb)"
    and dist: "distinct (map fst (ma @ mb) @ list_of_set env (rest @ utb))"
    and ap: "apply_outcomes env dets s (ma @ mb, list_of_set env (rest @ utb), udb) = Some s3"
    and up: "Tracker_update env dets s = Some (refresh env (prune s3))"
    unfolding rest_def by (rule update_stages [OF ok it a])
  have c: "matching_cascade env (gated_metric env (metric s)) (matching_threshold env (metric s))
       (max_age s) (tracks s) dets (confirmed_tracks (tracks s)) = (ma, uta, uda)"
    using a by (simp only: stage_a_def)
  have sc: "set (confirmed_tracks (tracks s)) =
       {i. i < length (tracks s) \<and> is_confirmed (tracks s ! i)}"
    by (rule set_confirmed_tracks)
  have ts: "fst ` set ma \<union> set uta = {i. i < length (tracks s) \<and> is_confirmed (tracks s ! i)}"
    using assignment_ok_tracks_set [OF u(1)] by (simp only: sc)
  have ds: "snd ` set ma \<union> set uda = {j. j < length dets}"
    using assignment_ok_dets_set [OF u(1)] by (simp add: set_eq_iff)
  have un: "\<forall>i<length (tracks s). \<not> is_confirmed (tracks s ! i) \<longrightarrow>
        i \<notin> fst ` set ma \<and> i \<notin> set uta"
  proof (intro allI impI)
    fix i assume "i < length (tracks s)" and n: "\<not> is_confirmed (tracks s ! i)"
    then have "i \<notin> {i. i < length (tracks s) \<and> is_confirmed (tracks s ! i)}" by simp
    with ts have "i \<notin> fst ` set ma \<union> set uta" by blast
    then show "i \<notin> fst ` set ma \<and> i \<notin> set uta" by simp
  qed
  have gm: "\<forall>tis dis. (\<forall>i\<in>set tis. i < length (tracks s)) \<longrightarrow> (\<forall>j\<in>set dis. j < length dets) \<longrightarrow>
        gated_metric env (metric s) (tracks s) dets tis dis =
          Some (gate_cost_matrix env
                  (metric_distance env (metric s)
                     (map (\<lambda>j. feature (dets ! j)) dis)
                     (map (\<lambda>i. track_id (tracks s ! i)) tis))
                  (tracks s) dets tis dis)"
    by (simp add: gated_metric_def gather_in_range)
  note at = apply_outcomes_tracks(4) [OF ap dist]
  have last: "\<forall>p\<in>set ma.
        is_confirmed (tracks s ! fst p) \<and>
        tracks s3 ! fst p = Track_update env (tracks s ! fst p) (dets ! snd p)"
  proof (intro ballI conjI)
    fix p assume p: "p \<in> set ma"
    then have "fst p \<in> fst ` set ma \<union> set uta" by simp
    with ts have "fst p \<in> {i. i < length (tracks s) \<and> is_confirmed (tracks s ! i)}"
      by blast
    then show "is_confirmed (tracks s ! fst p)" by simp
    from p have "p \<in> set (ma @ mb)" by simp
    with at show "tracks s3 ! fst p = Track_update env (tracks s ! fst p) (dets ! snd p)"
      by (rule bspec)
  qed
  from c sc ts ds un gm m ap up last show ?thesis
    unfolding rest_def
    by (intro exI conjI) assumption+
qed

theorem stage_a_confirmed_only_witness:
  "solvers_ok greedy_collaborators
     [\<lparr>tlwh = 3, feature = 21\<rparr>, \<lparr>tlwh = 50, feature = 8\<rparr>]
     (example_tracker example_gallery) \<and>
   set_iteration_ok greedy_collaborators \<and>
   confirmed_tracks (tracks (example_tracker example_gallery)) = [0, 1] \<and>
   gated_metric greedy_collaborators (metric (example_tracker example_gallery))
     (tracks (example_tracker example_gallery))
     [\<lparr>tlwh = 3, feature = 21\<rparr>, \<lparr>tlwh = 50, feature = 8\<rparr>] [0, 1] [0, 1] =
     Some [[13, 100000], [1, 100000]] \<and>
   matching_cascade greedy_collaborators
     (gated_metric greedy_collaborators (metric (example_tracker example_gallery)))
     (matching_threshold greedy_collaborators (metric (example_tracker example_gallery)))
     (max_age (example_tracker example_gallery))
     (tracks (example_tracker example_gallery))
     [\<lparr>tlwh = 3, feature = 21\<rparr>, \<lparr>tlwh = 50, feature = 8\<rparr>] [0, 1] = ([(1, 0)], [0], [1]) \<and>
   Tracker_match greedy_collaborators
     [\<lparr>tlwh = 3, feature = 21\<rparr>, \<lparr>tlwh = 50, feature = 8\<rparr>]
     (example_tracker example_gallery) = Some ([(1, 0)], [2, 0], [1]) \<and>
   (\<exists>s3. apply_outcomes greedy_collaborators
            [\<lparr>tlwh = 3, feature = 21\<rparr>, \<lparr>tlwh = 50, feature = 8\<rparr>]
            (example_tracker example_gallery) ([(1, 0)], [2, 0], [1]) = Some s3 \<and>
          Tracker_update greedy_collaborators
            [\<lparr>tlwh = 3, feature = 21\<rparr>, \<lparr>tlwh = 50, feature = 8\<rparr>]
            (example_tracker example_gallery) = Some (refresh greedy_collaborators (prune s3)) \<and>
          tracks s3 ! 1 =
            Track_update greedy_collaborators (tracks (example_tracker example_gallery) ! 1)
              \<lparr>tlwh = 3, feature = 21\<rparr>)"
proof -
  let ?D = "[\<lparr>tlwh = 3::nat, feature = 21::nat\<rparr>, \<lparr>tlwh = 50, feature = 8\<rparr>]"
  let ?S = "example_tracker example_gallery"
  have ok: "solvers_ok greedy_collaborators ?D ?S" by (rule greedy_example_ok2)
  have it: "set_iteration_ok greedy_collaborators" by (rule greedy_set_iteration_ok)
  have ct: "confirmed_tracks (tracks ?S) = [0, 1]" by (rule example_confirmed)
  note g = greedy_example_gated
  note c = greedy_example_cascade
  note m = greedy_example_match
  from stage_a_confirmed_only [OF ok it] have ex: "\<exists>s3. apply_outcomes greedy_collaborators ?D ?S
        ([(1, 0)], [2, 0], [1]) = Some s3 \<and>
      Tracker_update greedy_collaborators ?D ?S = Some (refresh greedy_collaborators (prune s3)) \<and>
      tracks s3 ! 1 = Track_update greedy_collaborators (tracks ?S ! 1) \<lparr>tlwh = 3, feature = 21\<rparr>"
  proof (elim exE conjE)
    fix ma uta uda mb utb udb s3
    assume c': "matching_cascade greedy_collaborators
         (gated_metric greedy_collaborators (metric ?S))
         (matching_threshold greedy_collaborators (metric ?S)) (max_age ?S) (tracks ?S) ?D
         (confirmed_tracks (tracks ?S)) = (ma, uta, uda)"
      and m': "Tracker_match greedy_collaborators ?D ?S =
         Some (ma @ mb,
               list_of_set greedy_collaborators
                 (filter (\<lambda>k. time_since_update (tracks ?S ! k) \<noteq> 1) uta @ utb),
               udb)"
      and ap': "apply_outcomes greedy_collaborators ?D ?S
         (ma @ mb,
          list_of_set greedy_collaborators
            (filter (\<lambda>k. time_since_update (tracks ?S ! k) \<noteq> 1) uta @ utb),
          udb) = Some s3"
      and up: "Tracker_update greedy_collaborators ?D ?S =
         Some (refresh greedy_collaborators (prune s3))"
      and last: "\<forall>p\<in>set ma.
          is_confirmed (tracks ?S ! fst p) \<and>
          tracks s3 ! fst p =
            Track_update greedy_collaborators (tracks ?S ! fst p) (?D ! snd p)"
    from c' have "matching_cascade greedy_collaborators
         (gated_metric greedy_collaborators (metric ?S))
         (matching_threshold greedy_collaborators (metric ?S)) (max_age ?S) (tracks ?S) ?D
         [0, 1] = (ma, uta, uda)"
      by (simp only: ct)
    with c have e: "ma = [(1, 0)]" by simp
    from m m' have eq: "(ma @ mb,
          list_of_set greedy_collaborators
            (filter (\<lambda>k. time_since_update (tracks ?S ! k) \<noteq> 1) uta @ utb),
          udb) = ([(1, 0)], [2, 0], [1])"
      by simp
    have ap: "apply_outcomes greedy_collaborators ?D ?S ([(1, 0)], [2, 0], [1]) = Some s3"
      using ap' by (simp only: eq)
    have "(1, 0) \<in> set ma" by (simp add: e)
    with last have "is_confirmed (tracks ?S ! fst (1::nat, 0::nat)) \<and>
          tracks s3 ! fst (1::nat, 0::nat) =
            Track_update greedy_collaborators (tracks ?S ! fst (1::nat, 0::nat))
              (?D ! snd (1::nat, 0::nat))"
      by (rule bspec)
    then have "tracks s3 ! fst (1::nat, 0::nat) =
            Track_update greedy_collaborators (tracks ?S ! fst (1::nat, 0::nat))
              (?D ! snd (1::nat, 0::nat))"
      by (rule conjunct2)
    then have tu: "tracks s3 ! 1 =
        Track_update greedy_collaborators (tracks ?S ! 1) \<lparr>tlwh = 3, feature = 21\<rparr>"
      by (simp only: fst_conv snd_conv nth_Cons_0)
    from ap up tu show ?thesis
      by (intro exI [of _ s3] conjI)
  qed
  from ok it ct g c m ex show ?thesis
    by (intro conjI)
qed

text \<open>
  Claim C1. Stage B of \<^verbatim>\<open>update\<close>: with the outcome of Stage A named, the plain solver
  is called on the candidates, which are the indices of the tracks that are not confirmed
  followed by those of Stage A's unmatched (confirmed) tracks whose \<open>time_since_update\<close>
  is 1, and on the detections Stage A left over; its matches, all on candidates, close
  the result of \<^verbatim>\<open>_match\<close>. A track that Stage A left unmatched and whose
  \<open>time_since_update\<close> is not 1 is confirmed, is not a candidate, is in no match of the
  result, is among the unmatched tracks of the result, and is marked missed by
  \<^verbatim>\<open>update\<close>, which returns. The two solvers are taken to honour their contract at the
  two calls.
\<close>

theorem iou_candidates:
  assumes ok: "solvers_ok env dets s" and it: "set_iteration_ok env"
  shows "\<exists>ma uta uda candidates mb utb udb s3.
     stage_a env dets s = (ma, uta, uda) \<and>
     candidates = unconfirmed_tracks (tracks s) @
                  filter (\<lambda>k. time_since_update (tracks s ! k) = 1) uta \<and>
     set candidates =
       {i. i < length (tracks s) \<and> \<not> is_confirmed (tracks s ! i)} \<union>
       {k \<in> set uta. is_confirmed (tracks s ! k) \<and> time_since_update (tracks s ! k) = 1} \<and>
     min_cost_matching env (iou_cost env) (max_iou_distance s) (tracks s) dets candidates uda =
       (mb, utb, udb) \<and>
     fst ` set mb \<subseteq> set candidates \<and>
     Tracker_match env dets s =
       Some (ma @ mb,
             list_of_set env
               (filter (\<lambda>k. time_since_update (tracks s ! k) \<noteq> 1) uta @ utb),
             udb) \<and>
     apply_outcomes env dets s
       (ma @ mb,
        list_of_set env (filter (\<lambda>k. time_since_update (tracks s ! k) \<noteq> 1) uta @ utb),
        udb) = Some s3 \<and>
     Tracker_update env dets s = Some (refresh env (prune s3)) \<and>
     (\<forall>k\<in>set uta.
        is_confirmed (tracks s ! k) \<and>
        (time_since_update (tracks s ! k) \<noteq> 1 \<longrightarrow>
           k \<notin> set candidates \<and> k \<notin> fst ` set (ma @ mb) \<and>
           k \<in> set (list_of_set env
                      (filter (\<lambda>k. time_since_update (tracks s ! k) \<noteq> 1) uta @ utb)) \<and>
           tracks s3 ! k = Track_mark_missed (tracks s ! k)))"
proof -
  obtain ma uta uda where a: "stage_a env dets s = (ma, uta, uda)"
    by (cases "stage_a env dets s")
  define cands where "cands = unconfirmed_tracks (tracks s) @
      filter (\<lambda>k. time_since_update (tracks s ! k) = 1) uta"
  define rest where "rest = filter (\<lambda>k. time_since_update (tracks s ! k) \<noteq> 1) uta"
  note u = solvers_ok_unfold [OF ok a]
  obtain mb utb udb s3 where b: "stage_b env dets s cands uda = (mb, utb, udb)"
    and m: "Tracker_match env dets s = Some (ma @ mb, list_of_set env (rest @ utb), udb)"
    and dist: "distinct (map fst (ma @ mb) @ list_of_set env (rest @ utb))"
    and ap: "apply_outcomes env dets s (ma @ mb, list_of_set env (rest @ utb), udb) = Some s3"
    and up: "Tracker_update env dets s = Some (refresh env (prune s3))"
    unfolding cands_def rest_def by (rule update_stages [OF ok it a])
  from assignment_ok_tracks_set [OF u(1)]
  have sub: "set uta \<subseteq> set (confirmed_tracks (tracks s))" by blast
  then have conf: "\<forall>k\<in>set uta. is_confirmed (tracks s ! k)"
    by (auto simp: set_confirmed_tracks)
  have sc: "set cands =
       {i. i < length (tracks s) \<and> \<not> is_confirmed (tracks s ! i)} \<union>
       {k \<in> set uta. is_confirmed (tracks s ! k) \<and> time_since_update (tracks s ! k) = 1}"
    using conf by (auto simp: cands_def set_unconfirmed_tracks)
  have b': "min_cost_matching env (iou_cost env) (max_iou_distance s) (tracks s) dets cands uda =
       (mb, utb, udb)"
    using b by (simp only: stage_b_def)
  have bok: "assignment_ok (mb, utb, udb) cands uda"
    using u(3) b by (simp only: cands_def)
  from assignment_ok_tracks_set [OF bok]
  have mbs: "fst ` set mb \<subseteq> set cands" by blast
  have ls: "set (list_of_set env (rest @ utb)) = set (rest @ utb)"
    using it by (simp add: set_iteration_ok_def)
  note at = apply_outcomes_tracks(5) [OF ap dist]
  have last: "\<forall>k\<in>set uta.
        is_confirmed (tracks s ! k) \<and>
        (time_since_update (tracks s ! k) \<noteq> 1 \<longrightarrow>
           k \<notin> set cands \<and> k \<notin> fst ` set (ma @ mb) \<and>
           k \<in> set (list_of_set env (rest @ utb)) \<and>
           tracks s3 ! k = Track_mark_missed (tracks s ! k))"
  proof (intro ballI conjI impI)
    fix k assume k: "k \<in> set uta"
    from conf k show c: "is_confirmed (tracks s ! k)" by blast
    assume n: "time_since_update (tracks s ! k) \<noteq> 1"
    from c n show "k \<notin> set cands" by (simp add: sc)
    from k n have "k \<in> set rest" by (simp add: rest_def)
    then show in_l: "k \<in> set (list_of_set env (rest @ utb))" by (simp add: ls)
    from dist have "set (map fst (ma @ mb)) \<inter> set (list_of_set env (rest @ utb)) = {}"
      by (simp only: distinct_append)
    with in_l show "k \<notin> fst ` set (ma @ mb)" by (auto simp only: set_map)
    from at in_l show "tracks s3 ! k = Track_mark_missed (tracks s ! k)" by blast
  qed
  from a sc b' mbs m ap up last show ?thesis
    unfolding cands_def rest_def
    by (intro exI conjI) (assumption | rule refl)+
qed

theorem iou_candidates_witness:
  "solvers_ok greedy_collaborators
     [\<lparr>tlwh = 0, feature = 99\<rparr>, \<lparr>tlwh = 0, feature = 98\<rparr>, \<lparr>tlwh = 0, feature = 97\<rparr>]
     (example_tracker example_gallery) \<and>
   set_iteration_ok greedy_collaborators \<and>
   stage_a greedy_collaborators
     [\<lparr>tlwh = 0, feature = 99\<rparr>, \<lparr>tlwh = 0, feature = 98\<rparr>, \<lparr>tlwh = 0, feature = 97\<rparr>]
     (example_tracker example_gallery) = ([], [0, 1], [0, 1, 2]) \<and>
   is_confirmed (tracks (example_tracker example_gallery) ! 1) \<and>
   time_since_update (tracks (example_tracker example_gallery) ! 1) = 5 \<and>
   mean (tracks (example_tracker example_gallery) ! 1) = 0 \<and>
   min_cost_matching greedy_collaborators (iou_cost greedy_collaborators)
     (max_iou_distance (example_tracker example_gallery))
     (tracks (example_tracker example_gallery))
     [\<lparr>tlwh = 0, feature = 99\<rparr>, \<lparr>tlwh = 0, feature = 98\<rparr>, \<lparr>tlwh = 0, feature = 97\<rparr>]
     [2, 0] [0, 1, 2] = ([(2, 0), (0, 1)], [], [2]) \<and>
   Tracker_match greedy_collaborators
     [\<lparr>tlwh = 0, feature = 99\<rparr>, \<lparr>tlwh = 0, feature = 98\<rparr>, \<lparr>tlwh = 0, feature = 97\<rparr>]
     (example_tracker example_gallery) = Some ([(2, 0), (0, 1)], [1], [2]) \<and>
   (\<exists>s3. apply_outcomes greedy_collaborators
            [\<lparr>tlwh = 0, feature = 99\<rparr>, \<lparr>tlwh = 0, feature = 98\<rparr>, \<lparr>tlwh = 0, feature = 97\<rparr>]
            (example_tracker example_gallery) ([(2, 0), (0, 1)], [1], [2]) = Some s3 \<and>
          Tracker_update greedy_collaborators
            [\<lparr>tlwh = 0, feature = 99\<rparr>, \<lparr>tlwh = 0, feature = 98\<rparr>, \<lparr>tlwh = 0, feature = 97\<rparr>]
            (example_tracker example_gallery) = Some (refresh greedy_collaborators (prune s3)) \<and>
          tracks s3 ! 1 =
            Track_mark_missed (tracks (example_tracker example_gallery) ! 1))"
proof -
  let ?D = "[\<lparr>tlwh = 0::nat, feature = 99::nat\<rparr>, \<lparr>tlwh = 0, feature = 98\<rparr>,
             \<lparr>tlwh = 0, feature = 97\<rparr>]"
  let ?S = "example_tracker example_gallery"
  have ok: "solvers_ok greedy_collaborators ?D ?S" by (rule greedy_example_ok)
  have it: "set_iteration_ok greedy_collaborators" by (rule greedy_set_iteration_ok)
  have a: "stage_a greedy_collaborators ?D ?S = ([], [0, 1], [0, 1, 2])"
    by (rule greedy_example_a)
  have c1: "is_confirmed (tracks ?S ! 1)"
    and t5: "time_since_update (tracks ?S ! 1) = 5"
    and m0: "mean (tracks ?S ! 1) = 0"
    by (simp_all add: example_tracker_def example_track_def is_confirmed_def)
  have cs: "unconfirmed_tracks (tracks ?S) @
      filter (\<lambda>k. time_since_update (tracks ?S ! k) = 1) [0, 1] = [2, 0]"
    by (simp add: example_tracker_def example_track_def unconfirmed_tracks_def
        is_confirmed_def upt_rec)
  have rs: "filter (\<lambda>k. time_since_update (tracks ?S ! k) \<noteq> 1) [0, 1] = [1]"
    by (simp add: example_tracker_def example_track_def)
  have ls: "list_of_set greedy_collaborators xs = remdups xs" for xs
    by (simp add: greedy_collaborators_def)
  have b0: "min_cost_matching greedy_collaborators (iou_cost greedy_collaborators)
       (max_iou_distance ?S) (tracks ?S) ?D [2, 0] [0, 1, 2] = ([(2, 0), (0, 1)], [], [2])"
    using greedy_example_b by (simp only: stage_b_def)
  from iou_candidates [OF ok it] have ex: "\<exists>s3. apply_outcomes greedy_collaborators ?D ?S
        ([(2, 0), (0, 1)], [1], [2]) = Some s3 \<and>
      Tracker_update greedy_collaborators ?D ?S = Some (refresh greedy_collaborators (prune s3)) \<and>
      Tracker_match greedy_collaborators ?D ?S = Some ([(2, 0), (0, 1)], [1], [2]) \<and>
      tracks s3 ! 1 = Track_mark_missed (tracks ?S ! 1)"
  proof (elim exE conjE)
    fix ma uta uda candidates mb utb udb s3
    assume a': "stage_a greedy_collaborators ?D ?S = (ma, uta, uda)"
      and cd: "candidates = unconfirmed_tracks (tracks ?S) @
                 filter (\<lambda>k. time_since_update (tracks ?S ! k) = 1) uta"
      and b': "min_cost_matching greedy_collaborators (iou_cost greedy_collaborators)
         (max_iou_distance ?S) (tracks ?S) ?D candidates uda = (mb, utb, udb)"
      and m': "Tracker_match greedy_collaborators ?D ?S =
         Some (ma @ mb,
               list_of_set greedy_collaborators
                 (filter (\<lambda>k. time_since_update (tracks ?S ! k) \<noteq> 1) uta @ utb),
               udb)"
      and ap': "apply_outcomes greedy_collaborators ?D ?S
         (ma @ mb,
          list_of_set greedy_collaborators
            (filter (\<lambda>k. time_since_update (tracks ?S ! k) \<noteq> 1) uta @ utb),
          udb) = Some s3"
      and up: "Tracker_update greedy_collaborators ?D ?S =
         Some (refresh greedy_collaborators (prune s3))"
      and last: "\<forall>k\<in>set uta.
          is_confirmed (tracks ?S ! k) \<and>
          (time_since_update (tracks ?S ! k) \<noteq> 1 \<longrightarrow>
             k \<notin> set candidates \<and>
             k \<notin> fst ` set (ma @ mb) \<and>
             k \<in> set (list_of_set greedy_collaborators
                        (filter (\<lambda>k. time_since_update (tracks ?S ! k) \<noteq> 1) uta @ utb)) \<and>
             tracks s3 ! k = Track_mark_missed (tracks ?S ! k))"
    from a a' have e: "ma = []" "uta = [0, 1]" "uda = [0, 1, 2]" by simp_all
    have cd': "candidates = [2, 0]" by (simp only: cd e cs)
    from b' have "min_cost_matching greedy_collaborators (iou_cost greedy_collaborators)
         (max_iou_distance ?S) (tracks ?S) ?D [2, 0] [0, 1, 2] = (mb, utb, udb)"
      by (simp only: e cd')
    with b0 have eb: "mb = [(2, 0), (0, 1)]" "utb = []" "udb = [2]" by simp_all
    have l1: "list_of_set greedy_collaborators
        (filter (\<lambda>k. time_since_update (tracks ?S ! k) \<noteq> 1) [0, 1] @ []) = [1]"
      by (simp only: rs ls) simp
    have m: "Tracker_match greedy_collaborators ?D ?S = Some ([(2, 0), (0, 1)], [1], [2])"
      using m' by (simp only: e eb l1 append_Nil)
    have ap: "apply_outcomes greedy_collaborators ?D ?S ([(2, 0), (0, 1)], [1], [2]) = Some s3"
      using ap' by (simp only: e eb l1 append_Nil)
    have "1 \<in> set uta" by (simp add: e)
    with last have "is_confirmed (tracks ?S ! 1) \<and>
          (time_since_update (tracks ?S ! 1) \<noteq> 1 \<longrightarrow>
             1 \<notin> set candidates \<and>
             1 \<notin> fst ` set (ma @ mb) \<and>
             1 \<in> set (list_of_set greedy_collaborators
                        (filter (\<lambda>k. time_since_update (tracks ?S ! k) \<noteq> 1) uta @ utb)) \<and>
             tracks s3 ! 1 = Track_mark_missed (tracks ?S ! 1))"
      by (rule bspec)
    then have "time_since_update (tracks ?S ! 1) \<noteq> 1 \<longrightarrow>
             1 \<notin> set candidates \<and>
             1 \<notin> fst ` set (ma @ mb) \<and>
             1 \<in> set (list_of_set greedy_collaborators
                        (filter (\<lambda>k. time_since_update (tracks ?S ! k) \<noteq> 1) uta @ utb)) \<and>
             tracks s3 ! 1 = Track_mark_missed (tracks ?S ! 1)"
      by (rule conjunct2)
    moreover have "time_since_update (tracks ?S ! 1) \<noteq> 1"
      by (simp only: t5)
    ultimately have "1 \<notin> set candidates \<and>
             1 \<notin> fst ` set (ma @ mb) \<and>
             1 \<in> set (list_of_set greedy_collaborators
                        (filter (\<lambda>k. time_since_update (tracks ?S ! k) \<noteq> 1) uta @ utb)) \<and>
             tracks s3 ! 1 = Track_mark_missed (tracks ?S ! 1)"
      by (rule mp)
    then have mm: "tracks s3 ! 1 = Track_mark_missed (tracks ?S ! 1)"
      by (elim conjE)
    from ap up m mm show ?thesis
      by (intro exI [of _ s3] conjI)
  qed
  then obtain s3 where ap: "apply_outcomes greedy_collaborators ?D ?S
        ([(2, 0), (0, 1)], [1], [2]) = Some s3"
    and up: "Tracker_update greedy_collaborators ?D ?S =
        Some (refresh greedy_collaborators (prune s3))"
    and m: "Tracker_match greedy_collaborators ?D ?S = Some ([(2, 0), (0, 1)], [1], [2])"
    and mm: "tracks s3 ! 1 = Track_mark_missed (tracks ?S ! 1)"
    by (elim exE conjE)
  from ap up mm have ex2: "\<exists>s3. apply_outcomes greedy_collaborators ?D ?S
        ([(2, 0), (0, 1)], [1], [2]) = Some s3 \<and>
      Tracker_update greedy_collaborators ?D ?S = Some (refresh greedy_collaborators (prune s3)) \<and>
      tracks s3 ! 1 = Track_mark_missed (tracks ?S ! 1)"
    by (intro exI [of _ s3] conjI)
  from ok it a c1 t5 m0 b0 m ex2 show ?thesis
    by (intro conjI)
qed

end
